theory Spec2Isabelle
  imports Main
begin

section \<open>Data model of the transfer service\<close>

text \<open>
  The service in \<^verbatim>\<open>src/services/transferService.js\<close> talks to Google Drive through
  four calls of the googleapis client: \<^verbatim>\<open>files.get\<close>, \<^verbatim>\<open>permissions.list\<close>,
  \<^verbatim>\<open>permissions.create\<close> and \<^verbatim>\<open>permissions.update\<close>. The client is not part of the
  repository, so it is a parameter of the model: a record of four functions over an
  arbitrary Drive state \<open>'s\<close>, each returning either the message of the rejected promise
  (\<open>Inl\<close>) or the response data (\<open>Inr\<close>), together with the next Drive state.

  JavaScript strings are modelled as \<open>string\<close>. An options object is a map from property
  names to values, an absent property being \<^verbatim>\<open>undefined\<close>; the values it can carry are
  booleans and integers. The option \<^verbatim>\<open>moveToNewOwnerDrive\<close> is read by the service but
  never used. \<^verbatim>\<open>console.log\<close> output is not modelled.
\<close>

datatype jsval = JBool bool | JNum int

fun truthy :: "jsval \<Rightarrow> bool" where
  "truthy (JBool b) = b"
| "truthy (JNum n) = (n \<noteq> 0)"

type_synonym options = "string \<rightharpoonup> jsval"

record principal =
  owner_emailAddress :: string
  owner_displayName :: string

record fileRecord =
  file_id :: string
  name :: string
  mimeType :: string
  owners :: "principal list option"

record permission =
  perm_id :: string
  role :: string
  perm_type :: string
  emailAddress :: "string option"

record outcome =
  success :: bool
  message :: "string option"
  error :: "string option"
  fileId :: string
  fileName :: "string option"
  newOwner :: "string option"

record validation =
  valid :: bool
  currentOwner :: "string option"
  validFileName :: "string option"
  validError :: "string option"

record summary =
  successful :: nat
  failed :: nat
  total :: nat

record batch =
  results :: "outcome list"
  summary :: summary

text \<open>
  Every request sent to Drive and every pacing delay is recorded, in order, in a trace.
  \<open>CreatePermission\<close> carries file id, role, type and email address;
  \<open>UpdatePermission\<close> carries file id, permission id, the new role, the
  \<^verbatim>\<open>transferOwnership\<close> flag and the \<^verbatim>\<open>sendNotificationEmail\<close> value.
\<close>

datatype api_call =
  GetFile string
| ListPermissions string
| CreatePermission string string string string
| UpdatePermission string string string bool jsval

datatype event = Api api_call | Delay jsval

record 's drive =
  files_get :: "string \<Rightarrow> 's \<Rightarrow> (string + fileRecord) \<times> 's"
  permissions_list :: "string \<Rightarrow> 's \<Rightarrow> (string + permission list) \<times> 's"
  permissions_create :: "string \<Rightarrow> string \<Rightarrow> string \<Rightarrow> string \<Rightarrow> 's \<Rightarrow> (string + string) \<times> 's"
  permissions_update :: "string \<Rightarrow> string \<Rightarrow> string \<Rightarrow> bool \<Rightarrow> jsval \<Rightarrow> 's \<Rightarrow> (string + unit) \<times> 's"

record 's world =
  drv :: 's
  trace :: "event list"

section \<open>Awaiting, throwing and catching\<close>

definition call :: "api_call \<Rightarrow> ('s \<Rightarrow> 'a \<times> 's) \<Rightarrow> 's world \<Rightarrow> 'a \<times> 's world" where
  "call c f w = (case f (drv w) of (r, s') \<Rightarrow> (r, \<lparr>drv = s', trace = trace w @ [Api c]\<rparr>))"

definition return :: "'a \<Rightarrow> 'w \<Rightarrow> (string + 'a) \<times> 'w" where
  "return x w = (Inr x, w)"

definition throw :: "string \<Rightarrow> 'w \<Rightarrow> (string + 'a) \<times> 'w" where
  "throw m w = (Inl m, w)"

definition await ::
  "('w \<Rightarrow> (string + 'a) \<times> 'w) \<Rightarrow> ('a \<Rightarrow> 'w \<Rightarrow> (string + 'b) \<times> 'w) \<Rightarrow> 'w \<Rightarrow> (string + 'b) \<times> 'w" where
  "await m k w = (case m w of (Inl e, w') \<Rightarrow> (Inl e, w') | (Inr x, w') \<Rightarrow> k x w')"

text \<open>\<^verbatim>\<open>try { body } catch (error) { throw new Error(prefix + error.message) }\<close>\<close>

definition rethrow :: "string \<Rightarrow> ('w \<Rightarrow> (string + 'a) \<times> 'w) \<Rightarrow> 'w \<Rightarrow> (string + 'a) \<times> 'w" where
  "rethrow prefix body w =
     (case body w of (Inl e, w') \<Rightarrow> (Inl (prefix @ e), w') | (Inr x, w') \<Rightarrow> (Inr x, w'))"

section \<open>The service\<close>

definition getFileDetails :: "'s drive \<Rightarrow> string \<Rightarrow> 's world \<Rightarrow> (string + fileRecord) \<times> 's world" where
  "getFileDetails D fid =
     rethrow ''Failed to get file details: '' (call (GetFile fid) (files_get D fid))"

definition getFilePermissions ::
  "'s drive \<Rightarrow> string \<Rightarrow> 's world \<Rightarrow> (string + permission list) \<times> 's world" where
  "getFilePermissions D fid =
     rethrow ''Failed to get permissions: '' (call (ListPermissions fid) (permissions_list D fid))"

text \<open>\<^verbatim>\<open>addPermission(fileId, emailAddress, role, type = 'user')\<close>, always called with three arguments.\<close>

definition addPermission ::
  "'s drive \<Rightarrow> string \<Rightarrow> string \<Rightarrow> string \<Rightarrow> 's world \<Rightarrow> (string + string) \<times> 's world" where
  "addPermission D fid email r =
     rethrow ''Failed to add permission: ''
       (call (CreatePermission fid r ''user'' email) (permissions_create D fid r ''user'' email))"

definition promoteToOwner ::
  "'s drive \<Rightarrow> string \<Rightarrow> string \<Rightarrow> jsval \<Rightarrow> 's world \<Rightarrow> (string + unit) \<times> 's world" where
  "promoteToOwner D fid email sendNotificationEmail =
     rethrow ''Failed to promote to owner: ''
       (await (getFilePermissions D fid) (\<lambda>permissions.
          case find (\<lambda>perm. emailAddress perm = Some email) permissions of
            None \<Rightarrow> throw (''User '' @ email @ '' does not have permission to this file'')
          | Some userPermission \<Rightarrow>
              call (UpdatePermission fid (perm_id userPermission) ''owner'' True sendNotificationEmail)
                (permissions_update D fid (perm_id userPermission) ''owner'' True sendNotificationEmail)))"

definition transferFileOwnership ::
  "'s drive \<Rightarrow> string \<Rightarrow> string \<Rightarrow> options \<Rightarrow> 's world \<Rightarrow> (string + outcome) \<times> 's world" where
  "transferFileOwnership D fid newOwnerEmail opts =
     rethrow ''Transfer failed: ''
       (let transferOwnership =
              (case opts ''transferOwnership'' of None \<Rightarrow> JBool True | Some v \<Rightarrow> v);
            sendNotificationEmail =
              (case opts ''sendNotificationEmail'' of None \<Rightarrow> JBool False | Some v \<Rightarrow> v)
        in
        await (getFileDetails D fid) (\<lambda>fileDetails.
        await (getFilePermissions D fid) (\<lambda>existingPermissions.
          let existingPermission =
                find (\<lambda>perm. emailAddress perm = Some newOwnerEmail) existingPermissions
          in
          if (case existingPermission of None \<Rightarrow> False | Some p \<Rightarrow> role p = ''owner'') then
            return \<lparr>success = True, message = Some ''Already owner'', error = None,
                    fileId = fid, fileName = Some (name fileDetails), newOwner = None\<rparr>
          else
            await (if existingPermission = None
                   then await (addPermission D fid newOwnerEmail ''writer'') (\<lambda>_. return ())
                   else return ()) (\<lambda>_.
            await (if truthy transferOwnership
                   then promoteToOwner D fid newOwnerEmail sendNotificationEmail
                   else return ()) (\<lambda>_.
            return \<lparr>success = True, message = Some ''Ownership transferred successfully'',
                    error = None, fileId = fid, fileName = Some (name fileDetails),
                    newOwner = Some newOwnerEmail\<rparr>)))))"

definition delay :: "jsval \<Rightarrow> 's world \<Rightarrow> 's world" where
  "delay ms w = w\<lparr>trace := trace w @ [Delay ms]\<rparr>"

text \<open>
  The \<^verbatim>\<open>for\<close> loop of \<^verbatim>\<open>batchTransferOwnership\<close>, with the loop variable \<open>i\<close> and the
  \<^verbatim>\<open>results\<close> array as arguments. The delay sits inside the \<^verbatim>\<open>try\<close> block after the
  push of a returned result; the \<^verbatim>\<open>catch\<close> block pushes the error result and either
  breaks or falls through to the next iteration.
\<close>

function batch_loop ::
  "'s drive \<Rightarrow> string list \<Rightarrow> string \<Rightarrow> options \<Rightarrow> jsval \<Rightarrow> jsval \<Rightarrow> nat \<Rightarrow> outcome list \<Rightarrow> 's world
     \<Rightarrow> outcome list \<times> 's world" where
  "batch_loop D fileIds newOwnerEmail opts delayBetweenTransfers continueOnError i rs w =
     (if i < length fileIds then
        (case transferFileOwnership D (fileIds ! i) newOwnerEmail opts w of
           (Inr result, w1) \<Rightarrow>
             batch_loop D fileIds newOwnerEmail opts delayBetweenTransfers continueOnError (i + 1)
               (rs @ [result])
               (if int i < int (length fileIds) - 1 then delay delayBetweenTransfers w1 else w1)
         | (Inl msg, w1) \<Rightarrow>
             (let errorResult = \<lparr>success = False, message = None, error = Some msg,
                                 fileId = fileIds ! i, fileName = None, newOwner = None\<rparr>
              in if \<not> truthy continueOnError then (rs @ [errorResult], w1)
                 else batch_loop D fileIds newOwnerEmail opts delayBetweenTransfers continueOnError
                        (i + 1) (rs @ [errorResult]) w1))
      else (rs, w))"
  by pat_completeness auto
termination
  by (relation "measure (\<lambda>(D, fileIds, newOwnerEmail, opts, d, c, i, rs, w). length fileIds - i)") auto

definition batchTransferOwnership ::
  "'s drive \<Rightarrow> string list \<Rightarrow> string \<Rightarrow> options \<Rightarrow> 's world \<Rightarrow> batch \<times> 's world" where
  "batchTransferOwnership D fileIds newOwnerEmail opts w =
     (let delayBetweenTransfers =
            (case opts ''delayBetweenTransfers'' of None \<Rightarrow> JNum 1000 | Some v \<Rightarrow> v);
          continueOnError =
            (case opts ''continueOnError'' of None \<Rightarrow> JBool True | Some v \<Rightarrow> v)
      in case batch_loop D fileIds newOwnerEmail opts delayBetweenTransfers continueOnError 0 [] w of
           (rs, w') \<Rightarrow>
             (\<lparr>results = rs,
               summary = \<lparr>successful = length (filter (\<lambda>r. success r) rs),
                          failed = length (filter (\<lambda>r. \<not> success r) rs),
                          total = length fileIds\<rparr>\<rparr>, w'))"


text \<open>
  \<^verbatim>\<open>/^[^\s@]+@[^\s@]+\.[^\s@]+$/\<close>. The class \<^verbatim>\<open>\s\<close> of a JavaScript regular expression,
  restricted to the code units below 256 that \<open>char\<close> covers: tab, line feed, vertical tab,
  form feed, carriage return, space and no-break space.
\<close>

definition js_space :: "char \<Rightarrow> bool" where
  "js_space c = (c \<in> set [CHR 0x09, CHR 0x0A, CHR 0x0B, CHR 0x0C, CHR 0x0D, CHR 0x20, CHR 0xA0])"

definition nonSpaceNonAt :: "char \<Rightarrow> bool" where
  "nonSpaceNonAt c = (\<not> js_space c \<and> c \<noteq> CHR ''@'')"

text \<open>
  Since no character of the three runs is an \<^verbatim>\<open>@\<close>, the first run ends at the first
  \<^verbatim>\<open>@\<close> of the string; the rest must split around a dot that is neither its first nor
  its last character.
\<close>

definition isValidEmail :: "string \<Rightarrow> bool" where
  "isValidEmail email =
     (case dropWhile (\<lambda>c. c \<noteq> CHR ''@'') email of
        [] \<Rightarrow> False
      | _ # domain \<Rightarrow>
          takeWhile (\<lambda>c. c \<noteq> CHR ''@'') email \<noteq> [] \<and>
          list_all nonSpaceNonAt (takeWhile (\<lambda>c. c \<noteq> CHR ''@'') email) \<and>
          list_all nonSpaceNonAt domain \<and>
          CHR ''.'' \<in> set (butlast (tl domain)))"

text \<open>
  \<^verbatim>\<open>validateTransferPreconditions\<close>: the \<^verbatim>\<open>catch\<close> block returns instead of throwing.
  \<^verbatim>\<open>fileDetails.owners && fileDetails.owners[0]\<close> is falsy when \<^verbatim>\<open>owners\<close> is absent or
  empty.
\<close>

definition validateTransferPreconditions ::
  "'s drive \<Rightarrow> string \<Rightarrow> string \<Rightarrow> 's world \<Rightarrow> (string + validation) \<times> 's world" where
  "validateTransferPreconditions D fid newOwnerEmail w =
     (case
        await (getFileDetails D fid) (\<lambda>fileDetails.
          case (case owners fileDetails of None \<Rightarrow> None | Some [] \<Rightarrow> None | Some (p # _) \<Rightarrow> Some p) of
            None \<Rightarrow> throw ''Could not determine current file owner''
          | Some currentOwner' \<Rightarrow>
              if \<not> isValidEmail newOwnerEmail then throw ''Invalid new owner email address''
              else return \<lparr>valid = True, currentOwner = Some (owner_emailAddress currentOwner'),
                           validFileName = Some (name fileDetails), validError = None\<rparr>) w
      of
        (Inl msg, w') \<Rightarrow>
          (Inr \<lparr>valid = False, currentOwner = None, validFileName = None, validError = Some msg\<rparr>, w')
      | (Inr v, w') \<Rightarrow> (Inr v, w'))"

section \<open>An in-memory Drive\<close>

text \<open>
  A small stand-in for the Drive service, used only to run the service on concrete inputs:
  each file id maps to its record and its permission list. A missing file is an error of
  every call; \<open>create\<close> appends a permission whose id is derived from the email address;
  \<open>update\<close> sets the role of the permissions with the given id.
\<close>

type_synonym mem = "string \<rightharpoonup> fileRecord \<times> permission list"

definition mem_drive :: "mem drive" where
  "mem_drive =
     \<lparr>files_get = (\<lambda>fid s. case s fid of
          None \<Rightarrow> (Inl (''File not found: '' @ fid), s)
        | Some (f, ps) \<Rightarrow> (Inr f, s)),
      permissions_list = (\<lambda>fid s. case s fid of
          None \<Rightarrow> (Inl (''File not found: '' @ fid), s)
        | Some (f, ps) \<Rightarrow> (Inr ps, s)),
      permissions_create = (\<lambda>fid r t email s. case s fid of
          None \<Rightarrow> (Inl (''File not found: '' @ fid), s)
        | Some (f, ps) \<Rightarrow>
            (Inr (''id-'' @ email),
             s(fid \<mapsto> (f, ps @ [\<lparr>perm_id = ''id-'' @ email, role = r, perm_type = t,
                                  emailAddress = Some email\<rparr>])))),
      permissions_update = (\<lambda>fid pid r transfer notify s. case s fid of
          None \<Rightarrow> (Inl (''File not found: '' @ fid), s)
        | Some (f, ps) \<Rightarrow>
            if pid \<in> set (map perm_id ps)
            then (Inr (), s(fid \<mapsto> (f, map (\<lambda>p. if perm_id p = pid then p\<lparr>role := r\<rparr> else p) ps)))
            else (Inl (''Permission not found: '' @ pid), s))\<rparr>"

definition file1 :: fileRecord where
  "file1 = \<lparr>file_id = ''F1'', name = ''report.txt'', mimeType = ''text/plain'',
            owners = Some [\<lparr>owner_emailAddress = ''a@x.com'', owner_displayName = ''A''\<rparr>]\<rparr>"

definition file3 :: fileRecord where
  "file3 = \<lparr>file_id = ''F3'', name = ''notes.txt'', mimeType = ''text/plain'',
            owners = Some [\<lparr>owner_emailAddress = ''a@x.com'', owner_displayName = ''A''\<rparr>]\<rparr>"

definition owner_a :: permission where
  "owner_a = \<lparr>perm_id = ''id-a@x.com'', role = ''owner'', perm_type = ''user'',
              emailAddress = Some ''a@x.com''\<rparr>"

text \<open>Files \<open>F1\<close> and \<open>F3\<close> exist and are owned by \<open>a@x.com\<close>; \<open>F2\<close> does not exist.\<close>

definition mem0 :: mem where
  "mem0 = [''F1'' \<mapsto> (file1, [owner_a]), ''F3'' \<mapsto> (file3, [owner_a])]"

definition world0 :: "mem world" where
  "world0 = \<lparr>drv = mem0, trace = []\<rparr>"

section \<open>Vocabulary of the properties\<close>

text \<open>The object pushed by the \<^verbatim>\<open>catch\<close> block of the batch loop.\<close>

definition errorResult :: "string \<Rightarrow> string \<Rightarrow> outcome" where
  "errorResult msg fid = \<lparr>success = False, message = None, error = Some msg,
                           fileId = fid, fileName = None, newOwner = None\<rparr>"

fun is_delay :: "event \<Rightarrow> bool" where
  "is_delay (Delay ms) = True"
| "is_delay (Api c) = False"

text \<open>The file ids of the \<^verbatim>\<open>files.get\<close> requests of a trace, in order.\<close>

fun requested :: "event list \<Rightarrow> string list" where
  "requested [] = []"
| "requested (Api (GetFile fid) # evs) = fid # requested evs"
| "requested (ev # evs) = requested evs"

text \<open>
  \<open>processed D F email opts d i w rs w'\<close>: the outcomes \<open>rs\<close> are, one after the other, what
  \<^verbatim>\<open>transferFileOwnership\<close> gave for the elements \<open>F ! i\<close>, \<open>F ! (i + 1)\<close>, ... of the input,
  the first transfer started in the world \<open>w\<close> and each next one in the world the previous
  one left, after the pacing delay \<open>d\<close> when the previous transfer returned and another
  element follows it in the input; \<open>w'\<close> is the world left at the end. A returned result is
  recorded as it is, a thrown error as the error result of the element.
\<close>

fun processed ::
  "'s drive \<Rightarrow> string list \<Rightarrow> string \<Rightarrow> options \<Rightarrow> jsval \<Rightarrow> nat \<Rightarrow> 's world \<Rightarrow> outcome list
     \<Rightarrow> 's world \<Rightarrow> bool" where
  "processed D F email opts d i w [] w' = (w' = w)"
| "processed D F email opts d i w (r # rs) w' =
     (i < length F \<and>
      (case transferFileOwnership D (F ! i) email opts w of
         (Inr result, w1) \<Rightarrow>
           r = result \<and>
           processed D F email opts d (Suc i) (if Suc i < length F then delay d w1 else w1) rs w'
       | (Inl msg, w1) \<Rightarrow>
           r = errorResult msg (F ! i) \<and> processed D F email opts d (Suc i) w1 rs w'))"

text \<open>A file on which \<open>b@x.com\<close> is listed twice: first as writer, then as owner.\<close>

definition mem_twice :: mem where
  "mem_twice = [''F1'' \<mapsto> (file1,
     [\<lparr>perm_id = ''p1'', role = ''writer'', perm_type = ''user'', emailAddress = Some ''b@x.com''\<rparr>,
      \<lparr>perm_id = ''p2'', role = ''owner'', perm_type = ''user'', emailAddress = Some ''b@x.com''\<rparr>])]"

section \<open>Single calls\<close>

declare batch_loop.simps [simp del]

lemmas run_defs =
  batchTransferOwnership_def transferFileOwnership_def validateTransferPreconditions_def
  promoteToOwner_def addPermission_def getFilePermissions_def getFileDetails_def
  rethrow_def await_def return_def throw_def call_def delay_def
  mem_drive_def mem0_def world0_def file1_def file3_def owner_a_def mem_twice_def

lemma call_eq:
  "call c f w = (r, w') \<longleftrightarrow> (f (drv w) = (r, drv w') \<and> trace w' = trace w @ [Api c])"
  by (cases w') (auto simp: call_def split: prod.splits)

lemma call_trace: "call c f w = (r, w') \<Longrightarrow> trace w' = trace w @ [Api c]"
  by (simp add: call_eq)

lemma getFileDetails_trace:
  "getFileDetails D fid w = (r, w') \<Longrightarrow> trace w' = trace w @ [Api (GetFile fid)]"
  by (auto simp: getFileDetails_def rethrow_def split: prod.splits sum.splits dest: call_trace)

lemma getFilePermissions_trace:
  "getFilePermissions D fid w = (r, w') \<Longrightarrow> trace w' = trace w @ [Api (ListPermissions fid)]"
  by (auto simp: getFilePermissions_def rethrow_def split: prod.splits sum.splits dest: call_trace)

lemma addPermission_trace:
  "addPermission D fid email r w = (x, w') \<Longrightarrow>
   trace w' = trace w @ [Api (CreatePermission fid r ''user'' email)]"
  by (auto simp: addPermission_def rethrow_def split: prod.splits sum.splits dest: call_trace)

lemma promoteToOwner_trace:
  "promoteToOwner D fid email n w = (x, w') \<Longrightarrow>
   \<exists>evs. trace w' = trace w @ evs \<and> \<not> list_ex is_delay evs"
  by (fastforce simp: promoteToOwner_def rethrow_def await_def throw_def
      split: prod.splits sum.splits option.splits
      dest: call_trace getFilePermissions_trace)

lemma getFileDetails_Inr:
  "getFileDetails D fid w = (Inr f, w') \<longleftrightarrow>
   (files_get D fid (drv w) = (Inr f, drv w') \<and> trace w' = trace w @ [Api (GetFile fid)])"
  by (auto simp: getFileDetails_def rethrow_def call_eq split: prod.splits sum.splits)

lemma getFilePermissions_Inr:
  "getFilePermissions D fid w = (Inr ps, w') \<longleftrightarrow>
   (permissions_list D fid (drv w) = (Inr ps, drv w') \<and>
    trace w' = trace w @ [Api (ListPermissions fid)])"
  by (auto simp: getFilePermissions_def rethrow_def call_eq split: prod.splits sum.splits)

text \<open>A transfer that returns, returns a success outcome for the file it was asked about.\<close>

lemma transfer_Inr:
  assumes "transferFileOwnership D fid email opts w = (Inr r, w')"
  shows "success r \<and> fileId r = fid"
  using assms
  by (auto simp: transferFileOwnership_def rethrow_def await_def return_def Let_def
      split: prod.splits sum.splits if_splits option.splits)

text \<open>The \<^verbatim>\<open>files.get\<close> requests of single calls.\<close>

lemma requested_append: "requested (xs @ ys) = requested xs @ requested ys"
  by (induction xs rule: requested.induct) simp_all

lemma promoteToOwner_requested:
  "promoteToOwner D fid email n w = (x, w') \<Longrightarrow>
   \<exists>evs. trace w' = trace w @ evs \<and> requested evs = []"
  by (fastforce simp: promoteToOwner_def rethrow_def await_def throw_def
      split: prod.splits sum.splits option.splits
      dest: call_trace getFilePermissions_trace)

lemma transfer_requested:
  "transferFileOwnership D fid e opts w = (x, w') \<Longrightarrow>
   \<exists>evs. trace w' = trace w @ evs \<and> requested evs = [fid]"
  apply (simp add: transferFileOwnership_def rethrow_def await_def return_def Let_def
      split: prod.splits sum.splits if_splits option.splits)
  apply (auto simp: requested_append dest!: getFileDetails_trace getFilePermissions_trace addPermission_trace
      promoteToOwner_requested)
  done

lemma addPermission_Inr:
  "addPermission D fid email r w = (Inr pid, w') \<longleftrightarrow>
   (permissions_create D fid r ''user'' email (drv w) = (Inr pid, drv w') \<and>
    trace w' = trace w @ [Api (CreatePermission fid r ''user'' email)])"
  by (auto simp: addPermission_def rethrow_def call_eq split: prod.splits sum.splits)

lemma promoteToOwner_Inr_exact:
  "promoteToOwner D fid email n w = (Inr u, w') \<Longrightarrow>
   \<exists>perms s4 p. permissions_list D fid (drv w) = (Inr perms, s4) \<and>
      find (\<lambda>perm. emailAddress perm = Some email) perms = Some p \<and>
      permissions_update D fid (perm_id p) ''owner'' True n s4 = (Inr (), drv w') \<and>
      trace w' = trace w @ [Api (ListPermissions fid),
                            Api (UpdatePermission fid (perm_id p) ''owner'' True n)]"
  by (fastforce simp: promoteToOwner_def rethrow_def await_def throw_def call_eq
      getFilePermissions_def split: prod.splits sum.splits option.splits)

text \<open>Whatever happens, a transfer starts with \<^verbatim>\<open>files.get\<close> and never sleeps.\<close>

lemma transfer_trace:
  "transferFileOwnership D fid e opts w = (x, w') \<Longrightarrow>
   \<exists>evs. trace w' = trace w @ Api (GetFile fid) # evs \<and> \<not> list_ex is_delay evs"
  apply (simp add: transferFileOwnership_def rethrow_def await_def return_def Let_def
      split: prod.splits sum.splits if_splits option.splits)
  apply (auto dest!: getFileDetails_trace getFilePermissions_trace addPermission_trace
      promoteToOwner_trace)
  done

lemma no_delay_set: "\<not> list_ex is_delay evs \<Longrightarrow> Delay ms \<notin> set evs"
  by (auto simp: list_ex_iff)

lemma no_delay_filter: "\<not> list_ex is_delay evs \<Longrightarrow> filter is_delay evs = []"
  by (auto simp: list_ex_iff filter_empty_conv)

text \<open>When email addresses are unique among the permissions, the one found is the only one.\<close>

lemma find_unique_email:
  assumes "distinct (map emailAddress perms)" and "p \<in> set perms" and "emailAddress p = Some e"
  shows "find (\<lambda>perm. emailAddress perm = Some e) perms = Some p"
  using assms by (induction perms) (auto simp: image_iff)

section \<open>The batch loop\<close>

lemma batch_loop_step:
  "batch_loop D F e opts d c i rs w =
     (if i < length F then
        (case transferFileOwnership D (F ! i) e opts w of
           (Inr result, w1) \<Rightarrow>
             batch_loop D F e opts d c (Suc i) (rs @ [result])
               (if Suc i < length F then delay d w1 else w1)
         | (Inl msg, w1) \<Rightarrow>
             if truthy c
             then batch_loop D F e opts d c (Suc i) (rs @ [errorResult msg (F ! i)]) w1
             else (rs @ [errorResult msg (F ! i)], w1))
      else (rs, w))"
  by (subst batch_loop.simps) (auto simp: Let_def errorResult_def split: prod.splits sum.splits)

text \<open>
  Induction along the iterations of the loop: the loop is over, the transfer returned, the
  transfer threw and the loop goes on, the transfer threw and the loop breaks.
\<close>

lemma batch_loop_induct [consumes 0, case_names stop returned caught_continue caught_break]:
  assumes stop: "\<And>i rs w. \<not> i < length F \<Longrightarrow> P i rs w (rs, w)"
    and returned: "\<And>i rs w result w1 out.
        i < length F \<Longrightarrow> transferFileOwnership D (F ! i) e opts w = (Inr result, w1) \<Longrightarrow>
        P (Suc i) (rs @ [result]) (if Suc i < length F then delay d w1 else w1) out \<Longrightarrow>
        P i rs w out"
    and caught_continue: "\<And>i rs w msg w1 out.
        i < length F \<Longrightarrow> transferFileOwnership D (F ! i) e opts w = (Inl msg, w1) \<Longrightarrow>
        truthy c \<Longrightarrow> P (Suc i) (rs @ [errorResult msg (F ! i)]) w1 out \<Longrightarrow>
        P i rs w out"
    and caught_break: "\<And>i rs w msg w1.
        i < length F \<Longrightarrow> transferFileOwnership D (F ! i) e opts w = (Inl msg, w1) \<Longrightarrow>
        \<not> truthy c \<Longrightarrow> P i rs w (rs @ [errorResult msg (F ! i)], w1)"
  shows "P i rs w (batch_loop D F e opts d c i rs w)"
proof (induction "length F - i" arbitrary: i rs w)
  case 0
  then have "\<not> i < length F" by simp
  then show ?case by (simp add: batch_loop_step stop)
next
  case (Suc n)
  then have lt: "i < length F" and n: "n = length F - Suc i" by simp_all
  obtain x w1 where t: "transferFileOwnership D (F ! i) e opts w = (x, w1)" by force
  show ?case
  proof (cases x)
    case (Inr result)
    have "P (Suc i) (rs @ [result]) (if Suc i < length F then delay d w1 else w1)
            (batch_loop D F e opts d c (Suc i) (rs @ [result])
               (if Suc i < length F then delay d w1 else w1))"
      by (rule Suc.hyps(1)[OF n])
    from returned[OF lt t[unfolded Inr] this] show ?thesis
      using lt t Inr by (simp add: batch_loop_step[of D F e opts d c i])
  next
    case (Inl msg)
    show ?thesis
    proof (cases "truthy c")
      case True
      have "P (Suc i) (rs @ [errorResult msg (F ! i)]) w1
              (batch_loop D F e opts d c (Suc i) (rs @ [errorResult msg (F ! i)]) w1)"
        by (rule Suc.hyps(1)[OF n])
      from caught_continue[OF lt t[unfolded Inl] True this] show ?thesis
        using lt t Inl True by (simp add: batch_loop_step[of D F e opts d c i])
    next
      case False
      from caught_break[OF lt t[unfolded Inl] False] show ?thesis
        using lt t Inl False by (simp add: batch_loop_step[of D F e opts d c i])
    qed
  qed
qed

text \<open>Each iteration appends one outcome, carrying the file id of its element.\<close>

lemma batch_loop_fileIds:
  "\<exists>new. fst (batch_loop D F e opts d c i rs w) = rs @ new \<and>
         map fileId new = take (length new) (drop i F)"
proof (induction rule: batch_loop_induct[of F _ D e opts d c i rs w])
  case (stop i rs w)
  then show ?case by simp
next
  case (returned i rs w result w1 out)
  then obtain new where n: "fst out = (rs @ [result]) @ new"
    "map fileId new = take (length new) (drop (Suc i) F)" by blast
  have "fileId result = F ! i" using returned(2) transfer_Inr by blast
  moreover have "drop i F = F ! i # drop (Suc i) F"
    using returned(1) by (simp add: Cons_nth_drop_Suc)
  ultimately have "fst out = rs @ (result # new) \<and>
      map fileId (result # new) = take (length (result # new)) (drop i F)"
    using n by simp
  then show ?case by blast
next
  case (caught_continue i rs w msg w1 out)
  then obtain new where n: "fst out = (rs @ [errorResult msg (F ! i)]) @ new"
    "map fileId new = take (length new) (drop (Suc i) F)" by blast
  have "drop i F = F ! i # drop (Suc i) F"
    using caught_continue(1) by (simp add: Cons_nth_drop_Suc)
  then have "fst out = rs @ (errorResult msg (F ! i) # new) \<and>
      map fileId (errorResult msg (F ! i) # new) =
        take (length (errorResult msg (F ! i) # new)) (drop i F)"
    using n by (simp add: errorResult_def)
  then show ?case by blast
next
  case (caught_break i rs w msg w1)
  have "drop i F = F ! i # drop (Suc i) F"
    using caught_break(1) by (simp add: Cons_nth_drop_Suc)
  then have "fst (rs @ [errorResult msg (F ! i)], w1) = rs @ [errorResult msg (F ! i)] \<and>
      map fileId [errorResult msg (F ! i)] = take (length [errorResult msg (F ! i)]) (drop i F)"
    by (simp add: errorResult_def)
  then show ?case by blast
qed

text \<open>While errors are tolerated, the loop runs to the end of the input.\<close>

lemma batch_loop_continue_length:
  "truthy c \<Longrightarrow> length (fst (batch_loop D F e opts d c i rs w)) = length rs + (length F - i)"
proof (induction rule: batch_loop_induct[of F _ D e opts d c i rs w])
  case (stop i rs w)
  then show ?case by simp
next
  case (returned i rs w result w1 out)
  then show ?case by simp
next
  case (caught_continue i rs w msg w1 out)
  then show ?case by simp
next
  case (caught_break i rs w msg w1)
  then show ?case by simp
qed

text \<open>
  The delays of a run: each carries the configured duration, and there is one for every
  element but the last whose transfer returned.
\<close>

lemma batch_loop_delays:
  "\<exists>new evs. fst (batch_loop D F e opts d c i rs w) = rs @ new \<and>
      trace (snd (batch_loop D F e opts d c i rs w)) = trace w @ evs \<and>
      (\<forall>ms. Delay ms \<in> set evs \<longrightarrow> ms = d) \<and>
      length (filter is_delay evs) = length (filter success (take (length F - Suc i) new))"
proof (induction rule: batch_loop_induct[of F _ D e opts d c i rs w])
  case (stop i rs w)
  then show ?case by simp
next
  case (returned i rs w result w1 out)
  let ?w = "if Suc i < length F then delay d w1 else w1"
  from returned(3) obtain new evs where
    n: "fst out = (rs @ [result]) @ new" and
    t: "trace (snd out) = trace ?w @ evs" and
    dl: "\<forall>ms. Delay ms \<in> set evs \<longrightarrow> ms = d" and
    cnt: "length (filter is_delay evs) =
          length (filter success (take (length F - Suc (Suc i)) new))"
    by blast
  from transfer_trace[OF returned(2)] obtain evt where
    et: "trace w1 = trace w @ Api (GetFile (F ! i)) # evt" "\<not> list_ex is_delay evt" by blast
  have sr: "success result" using returned(2) transfer_Inr by blast
  let ?evs = "Api (GetFile (F ! i)) # evt @ (if Suc i < length F then [Delay d] else []) @ evs"
  have 1: "fst out = rs @ (result # new)" using n by simp
  have 2: "trace (snd out) = trace w @ ?evs" using t et by (simp add: delay_def)
  have 3: "\<forall>ms. Delay ms \<in> set ?evs \<longrightarrow> ms = d" using dl no_delay_set[OF et(2)] by auto
  have 4: "length (filter is_delay ?evs) =
           length (filter success (take (length F - Suc i) (result # new)))"
  proof (cases "Suc i < length F")
    case True
    then obtain k where k: "length F - Suc i = Suc k" "length F - Suc (Suc i) = k"
      by (metis Suc_diff_Suc diff_Suc_Suc)
    show ?thesis using True cnt sr k by (simp add: no_delay_filter[OF et(2)])
  next
    case False
    then have "length F - Suc i = 0" "length F - Suc (Suc i) = 0" by simp_all
    then show ?thesis using False cnt by (simp add: no_delay_filter[OF et(2)])
  qed
  from 1 2 3 4 show ?case by blast
next
  case (caught_continue i rs w msg w1 out)
  from caught_continue(4) obtain new evs where
    n: "fst out = (rs @ [errorResult msg (F ! i)]) @ new" and
    t: "trace (snd out) = trace w1 @ evs" and
    dl: "\<forall>ms. Delay ms \<in> set evs \<longrightarrow> ms = d" and
    cnt: "length (filter is_delay evs) =
          length (filter success (take (length F - Suc (Suc i)) new))"
    by blast
  from transfer_trace[OF caught_continue(2)] obtain evt where
    et: "trace w1 = trace w @ Api (GetFile (F ! i)) # evt" "\<not> list_ex is_delay evt" by blast
  let ?evs = "Api (GetFile (F ! i)) # evt @ evs"
  have 1: "fst out = rs @ (errorResult msg (F ! i) # new)" using n by simp
  have 2: "trace (snd out) = trace w @ ?evs" using t et by simp
  have 3: "\<forall>ms. Delay ms \<in> set ?evs \<longrightarrow> ms = d" using dl no_delay_set[OF et(2)] by auto
  have 4: "length (filter is_delay ?evs) =
           length (filter success (take (length F - Suc i) (errorResult msg (F ! i) # new)))"
  proof (cases "Suc i < length F")
    case True
    then obtain k where k: "length F - Suc i = Suc k" "length F - Suc (Suc i) = k"
      by (metis Suc_diff_Suc diff_Suc_Suc)
    show ?thesis using cnt k by (simp add: no_delay_filter[OF et(2)] errorResult_def)
  next
    case False
    then have "length F - Suc i = 0" "length F - Suc (Suc i) = 0" by simp_all
    then show ?thesis using cnt by (simp add: no_delay_filter[OF et(2)])
  qed
  from 1 2 3 4 show ?case by blast
next
  case (caught_break i rs w msg w1)
  from transfer_trace[OF caught_break(2)] obtain evt where
    et: "trace w1 = trace w @ Api (GetFile (F ! i)) # evt" "\<not> list_ex is_delay evt" by blast
  have ft: "filter success (take (length F - Suc i) [errorResult msg (F ! i)]) = []"
    by (cases "length F - Suc i") (simp_all add: errorResult_def)
  have "fst (rs @ [errorResult msg (F ! i)], w1) = rs @ [errorResult msg (F ! i)] \<and>
      trace (snd (rs @ [errorResult msg (F ! i)], w1)) = trace w @ (Api (GetFile (F ! i)) # evt) \<and>
      (\<forall>ms. Delay ms \<in> set (Api (GetFile (F ! i)) # evt) \<longrightarrow> ms = d) \<and>
      length (filter is_delay (Api (GetFile (F ! i)) # evt)) =
        length (filter success (take (length F - Suc i) [errorResult msg (F ! i)]))"
    using et no_delay_set[OF et(2)] by (simp add: no_delay_filter[OF et(2)] ft)
  then show ?case by blast
qed

text \<open>When errors are not tolerated, the first failed outcome is the last outcome.\<close>

lemma batch_loop_break:
  "\<not> truthy c \<Longrightarrow>
   \<exists>new. fst (batch_loop D F e opts d c i rs w) = rs @ new \<and>
     length new \<le> length F - i \<and>
     length (filter (\<lambda>r. \<not> success r) new) \<le> 1 \<and>
     (\<forall>k<length new. \<not> success (new ! k) \<longrightarrow> length new = Suc k) \<and>
     (length new < length F - i \<longrightarrow> new \<noteq> [] \<and> \<not> success (last new))"
proof (induction rule: batch_loop_induct[of F _ D e opts d c i rs w])
  case (stop i rs w)
  then show ?case by simp
next
  case (returned i rs w result w1 out)
  then obtain new where n: "fst out = (rs @ [result]) @ new"
    "length new \<le> length F - Suc i"
    "length (filter (\<lambda>r. \<not> success r) new) \<le> 1"
    "\<forall>k<length new. \<not> success (new ! k) \<longrightarrow> length new = Suc k"
    "length new < length F - Suc i \<longrightarrow> new \<noteq> [] \<and> \<not> success (last new)" by blast
  have sr: "success result" using returned(2) transfer_Inr by blast
  have 1: "fst out = rs @ (result # new)" using n(1) by simp
  have 2: "length (result # new) \<le> length F - i" using n(2) returned(1) by simp
  have 3: "length (filter (\<lambda>r. \<not> success r) (result # new)) \<le> 1" using n(3) sr by simp
  have 4: "\<forall>k<length (result # new).
             \<not> success ((result # new) ! k) \<longrightarrow> length (result # new) = Suc k"
  proof (intro allI impI)
    fix k assume k: "k < length (result # new)" "\<not> success ((result # new) ! k)"
    show "length (result # new) = Suc k"
    proof (cases k)
      case 0
      with k sr show ?thesis by simp
    next
      case (Suc k')
      with k n(4) show ?thesis by simp
    qed
  qed
  have 5: "length (result # new) < length F - i \<longrightarrow>
           result # new \<noteq> [] \<and> \<not> success (last (result # new))"
    using n(5) returned(1) by auto
  from 1 2 3 4 5 show ?case by blast
next
  case (caught_continue i rs w msg w1 out)
  then show ?case by simp
next
  case (caught_break i rs w msg w1)
  have "fst (rs @ [errorResult msg (F ! i)], w1) = rs @ [errorResult msg (F ! i)] \<and>
     length [errorResult msg (F ! i)] \<le> length F - i \<and>
     length (filter (\<lambda>r. \<not> success r) [errorResult msg (F ! i)]) \<le> 1 \<and>
     (\<forall>k<length [errorResult msg (F ! i)]. \<not> success ([errorResult msg (F ! i)] ! k) \<longrightarrow>
         length [errorResult msg (F ! i)] = Suc k) \<and>
     (length [errorResult msg (F ! i)] < length F - i \<longrightarrow>
        [errorResult msg (F ! i)] \<noteq> [] \<and> \<not> success (last [errorResult msg (F ! i)]))"
    using caught_break(1) by (simp add: errorResult_def)
  then show ?case by blast
qed

lemma batch_results:
  "results (fst (batchTransferOwnership D F email opts w)) =
     fst (batch_loop D F email opts
            (case opts ''delayBetweenTransfers'' of None \<Rightarrow> JNum 1000 | Some v \<Rightarrow> v)
            (case opts ''continueOnError'' of None \<Rightarrow> JBool True | Some v \<Rightarrow> v) 0 [] w)"
  by (simp add: batchTransferOwnership_def Let_def split: prod.splits)

lemma batch_summary:
  "summary (fst (batchTransferOwnership D F email opts w)) =
     \<lparr>successful = length (filter success (results (fst (batchTransferOwnership D F email opts w)))),
      failed = length (filter (\<lambda>r. \<not> success r)
                 (results (fst (batchTransferOwnership D F email opts w)))),
      total = length F\<rparr>"
  by (simp add: batchTransferOwnership_def Let_def split: prod.splits)

lemma batch_world:
  "snd (batchTransferOwnership D F email opts w) =
     snd (batch_loop D F email opts
            (case opts ''delayBetweenTransfers'' of None \<Rightarrow> JNum 1000 | Some v \<Rightarrow> v)
            (case opts ''continueOnError'' of None \<Rightarrow> JBool True | Some v \<Rightarrow> v) 0 [] w)"
  by (simp add: batchTransferOwnership_def Let_def split: prod.splits)

text \<open>Each recorded transfer sends exactly one \<^verbatim>\<open>files.get\<close> request, for its element.\<close>

lemma processed_requested:
  "processed D F e opts d i w rs w' \<Longrightarrow>
   \<exists>evs. trace w' = trace w @ evs \<and> requested evs = map fileId rs"
proof (induction rs arbitrary: i w)
  case Nil
  then show ?case by simp
next
  case (Cons r rs)
  obtain x w1 where t: "transferFileOwnership D (F ! i) e opts w = (x, w1)" by force
  from transfer_requested[OF t] obtain evt where
    et: "trace w1 = trace w @ evt" "requested evt = [F ! i]" by blast
  show ?case
  proof (cases x)
    case (Inr result)
    let ?w = "if Suc i < length F then delay d w1 else w1"
    from Cons.prems t Inr have r: "r = result" and p: "processed D F e opts d (Suc i) ?w rs w'"
      by simp_all
    from Cons.IH[OF p] obtain evs where
      ev: "trace w' = trace ?w @ evs" "requested evs = map fileId rs" by blast
    have f: "fileId r = F ! i" using t Inr r transfer_Inr by blast
    have "trace w' = trace w @ (evt @ (if Suc i < length F then [Delay d] else []) @ evs)"
      using ev(1) et(1) by (simp add: delay_def)
    moreover have "requested (evt @ (if Suc i < length F then [Delay d] else []) @ evs) =
        map fileId (r # rs)"
      using et(2) ev(2) f by (simp add: requested_append)
    ultimately show ?thesis by blast
  next
    case (Inl msg)
    from Cons.prems t Inl have r: "r = errorResult msg (F ! i)"
      and p: "processed D F e opts d (Suc i) w1 rs w'"
      by simp_all
    from Cons.IH[OF p] obtain evs where
      ev: "trace w' = trace w1 @ evs" "requested evs = map fileId rs" by blast
    have f: "fileId r = F ! i" using r by (simp add: errorResult_def)
    have "trace w' = trace w @ (evt @ evs)" using ev(1) et(1) by simp
    moreover have "requested (evt @ evs) = map fileId (r # rs)"
      using et(2) ev(2) f by (simp add: requested_append)
    ultimately show ?thesis by blast
  qed
qed

text \<open>
  The loop records, in order, the transfer of each element it reaches, and stops short of the
  end of the input only by breaking on a failed transfer.
\<close>

lemma batch_loop_processed:
  "\<exists>new. fst (batch_loop D F e opts d c i rs w) = rs @ new \<and>
     processed D F e opts d i w new (snd (batch_loop D F e opts d c i rs w)) \<and>
     (length new = length F - i \<or> (\<not> truthy c \<and> new \<noteq> [] \<and> \<not> success (last new)))"
proof (induction rule: batch_loop_induct[of F _ D e opts d c i rs w])
  case (stop i rs w)
  then show ?case by simp
next
  case (returned i rs w result w1 out)
  then obtain new where n: "fst out = (rs @ [result]) @ new"
    "processed D F e opts d (Suc i) (if Suc i < length F then delay d w1 else w1) new (snd out)"
    "length new = length F - Suc i \<or> (\<not> truthy c \<and> new \<noteq> [] \<and> \<not> success (last new))"
    by blast
  have "fst out = rs @ (result # new)" using n(1) by simp
  moreover have "processed D F e opts d i w (result # new) (snd out)"
    using returned(1,2) n(2) by simp
  moreover have "length (result # new) = length F - i \<or>
      (\<not> truthy c \<and> result # new \<noteq> [] \<and> \<not> success (last (result # new)))"
    using n(3) returned(1) by auto
  ultimately show ?case by blast
next
  case (caught_continue i rs w msg w1 out)
  then obtain new where n: "fst out = (rs @ [errorResult msg (F ! i)]) @ new"
    "processed D F e opts d (Suc i) w1 new (snd out)"
    "length new = length F - Suc i \<or> (\<not> truthy c \<and> new \<noteq> [] \<and> \<not> success (last new))"
    by blast
  have "fst out = rs @ (errorResult msg (F ! i) # new)" using n(1) by simp
  moreover have "processed D F e opts d i w (errorResult msg (F ! i) # new) (snd out)"
    using caught_continue(1,2) n(2) by simp
  moreover have "length (errorResult msg (F ! i) # new) = length F - i \<or>
      (\<not> truthy c \<and> errorResult msg (F ! i) # new \<noteq> [] \<and>
       \<not> success (last (errorResult msg (F ! i) # new)))"
    using n(3) caught_continue(1,3) by auto
  ultimately show ?case by blast
next
  case (caught_break i rs w msg w1)
  have "fst (rs @ [errorResult msg (F ! i)], w1) = rs @ [errorResult msg (F ! i)]" by simp
  moreover have "processed D F e opts d i w [errorResult msg (F ! i)]
      (snd (rs @ [errorResult msg (F ! i)], w1))"
    using caught_break(1,2) by simp
  moreover have "length [errorResult msg (F ! i)] = length F - i \<or>
      (\<not> truthy c \<and> [errorResult msg (F ! i)] \<noteq> [] \<and>
       \<not> success (last [errorResult msg (F ! i)]))"
    using caught_break(3) by (simp add: errorResult_def)
  ultimately show ?case by blast
qed

text \<open>A delay separates the requests of a returned transfer from those of the next element.\<close>

lemma processed_delay_between:
  "processed D F e opts d i w rs w' \<Longrightarrow> k < length rs \<Longrightarrow> Suc (i + k) < length F \<Longrightarrow>
   success (rs ! k) \<Longrightarrow>
   \<exists>pre post. trace w' = trace w @ pre @ Delay d # post \<and>
      requested pre = map fileId (take (Suc k) rs) \<and>
      requested post = map fileId (drop (Suc k) rs)"
proof (induction rs arbitrary: i w k)
  case Nil
  then show ?case by simp
next
  case (Cons r rs)
  obtain x w1 where t: "transferFileOwnership D (F ! i) e opts w = (x, w1)" by force
  from transfer_requested[OF t] obtain evt where
    et: "trace w1 = trace w @ evt" "requested evt = [F ! i]" by blast
  show ?case
  proof (cases x)
    case (Inr result)
    let ?w = "if Suc i < length F then delay d w1 else w1"
    from Cons.prems(1) t Inr have r: "r = result"
      and p: "processed D F e opts d (Suc i) ?w rs w'" by simp_all
    have f: "fileId r = F ! i" using t Inr r transfer_Inr by blast
    show ?thesis
    proof (cases k)
      case 0
      with Cons.prems(3) have lt: "Suc i < length F" by simp
      from processed_requested[OF p] obtain evs where
        ev: "trace w' = trace ?w @ evs" "requested evs = map fileId rs" by blast
      have "trace w' = trace w @ evt @ Delay d # evs"
        using ev(1) et(1) lt by (simp add: delay_def)
      moreover have "requested evt = map fileId (take (Suc k) (r # rs))"
        using et(2) f 0 by simp
      moreover have "requested evs = map fileId (drop (Suc k) (r # rs))"
        using ev(2) 0 by simp
      ultimately show ?thesis by blast
    next
      case (Suc k')
      with Cons.prems have "k' < length rs" "Suc (Suc i + k') < length F" "success (rs ! k')"
        by simp_all
      from Cons.IH[OF p this] obtain pre post where
        pp: "trace w' = trace ?w @ pre @ Delay d # post"
        "requested pre = map fileId (take (Suc k') rs)"
        "requested post = map fileId (drop (Suc k') rs)" by blast
      let ?pre = "evt @ (if Suc i < length F then [Delay d] else []) @ pre"
      have "trace w' = trace w @ ?pre @ Delay d # post"
        using pp(1) et(1) by (simp add: delay_def)
      moreover have "requested ?pre = map fileId (take (Suc k) (r # rs))"
        using et(2) pp(2) f Suc by (simp add: requested_append)
      moreover have "requested post = map fileId (drop (Suc k) (r # rs))"
        using pp(3) Suc by simp
      ultimately show ?thesis by blast
    qed
  next
    case (Inl msg)
    from Cons.prems(1) t Inl have r: "r = errorResult msg (F ! i)"
      and p: "processed D F e opts d (Suc i) w1 rs w'" by simp_all
    have f: "fileId r = F ! i" using r by (simp add: errorResult_def)
    show ?thesis
    proof (cases k)
      case 0
      with Cons.prems(4) r show ?thesis by (simp add: errorResult_def)
    next
      case (Suc k')
      with Cons.prems have "k' < length rs" "Suc (Suc i + k') < length F" "success (rs ! k')"
        by simp_all
      from Cons.IH[OF p this] obtain pre post where
        pp: "trace w' = trace w1 @ pre @ Delay d # post"
        "requested pre = map fileId (take (Suc k') rs)"
        "requested post = map fileId (drop (Suc k') rs)" by blast
      have "trace w' = trace w @ (evt @ pre) @ Delay d # post"
        using pp(1) et(1) by simp
      moreover have "requested (evt @ pre) = map fileId (take (Suc k) (r # rs))"
        using et(2) pp(2) f Suc by (simp add: requested_append)
      moreover have "requested post = map fileId (drop (Suc k) (r # rs))"
        using pp(3) Suc by simp
      ultimately show ?thesis by blast
    qed
  qed
qed

lemma batch_processed:
  assumes "batchTransferOwnership D F email opts w = (b, w')"
  shows "processed D F email opts
           (case opts ''delayBetweenTransfers'' of None \<Rightarrow> JNum 1000 | Some v \<Rightarrow> v)
           0 w (results b) w' \<and>
         (length (results b) = length F \<or>
          (\<not> truthy (case opts ''continueOnError'' of None \<Rightarrow> JBool True | Some v \<Rightarrow> v) \<and>
           results b \<noteq> [] \<and> \<not> success (last (results b))))"
proof -
  have b: "b = fst (batchTransferOwnership D F email opts w)"
    and w': "w' = snd (batchTransferOwnership D F email opts w)"
    using assms by simp_all
  from batch_loop_processed[of D F email opts
      "case opts ''delayBetweenTransfers'' of None \<Rightarrow> JNum 1000 | Some v \<Rightarrow> v"
      "case opts ''continueOnError'' of None \<Rightarrow> JBool True | Some v \<Rightarrow> v" 0 "[]" w]
  show ?thesis
    unfolding b w' by (simp add: batch_results batch_world)
qed

lemma batch_requested:
  assumes "batchTransferOwnership D F email opts w = (b, w')"
  shows "\<exists>evs. trace w' = trace w @ evs \<and> requested evs = map fileId (results b)"
  using processed_requested batch_processed[OF assms] by blast

section \<open>The email check\<close>

text \<open>
  The function accepts exactly the strings the regular expression matches: a non-empty run
  of characters that are neither white space nor \<^verbatim>\<open>@\<close>, an \<^verbatim>\<open>@\<close>, a second such run, a
  dot, and a third such run to the end of the string.
\<close>

lemma dot_plain: "nonSpaceNonAt (CHR ''.'')"
  by (simp add: nonSpaceNonAt_def js_space_def)

lemma plain_no_at: "list_all nonSpaceNonAt l \<Longrightarrow> CHR ''@'' \<notin> set l"
  by (auto simp: list_all_iff nonSpaceNonAt_def)

lemma isValidEmail_regex:
  "isValidEmail s \<longleftrightarrow>
     (\<exists>l a b. s = l @ CHR ''@'' # a @ CHR ''.'' # b \<and> l \<noteq> [] \<and> a \<noteq> [] \<and> b \<noteq> [] \<and>
        list_all nonSpaceNonAt l \<and> list_all nonSpaceNonAt a \<and> list_all nonSpaceNonAt b)"
proof
  assume v: "isValidEmail s"
  let ?l = "takeWhile (\<lambda>c. c \<noteq> CHR ''@'') s"
  from v obtain x d where dw: "dropWhile (\<lambda>c. c \<noteq> CHR ''@'') s = x # d"
    and l: "?l \<noteq> []" "list_all nonSpaceNonAt ?l"
    and d: "list_all nonSpaceNonAt d" "CHR ''.'' \<in> set (butlast (tl d))"
    by (auto simp: isValidEmail_def split: list.splits)
  have "x = CHR ''@''" using dw hd_dropWhile[of "\<lambda>c. c \<noteq> CHR ''@''" s] by force
  with dw have s: "s = ?l @ CHR ''@'' # d"
    using takeWhile_dropWhile_id[of "\<lambda>c. c \<noteq> CHR ''@''" s] by simp
  from d(2) obtain u v' where uv: "butlast (tl d) = u @ CHR ''.'' # v'"
    by (auto dest: split_list)
  then have ne: "tl d \<noteq> []" by auto
  then have dne: "d \<noteq> []" by auto
  have "tl d = butlast (tl d) @ [last (tl d)]" using ne by simp
  with uv have "tl d = u @ CHR ''.'' # (v' @ [last (tl d)])" by simp
  with dne have dd: "d = (hd d # u) @ CHR ''.'' # (v' @ [last (tl d)])"
    by (cases d) simp_all
  have "list_all nonSpaceNonAt (hd d # u)" "list_all nonSpaceNonAt (v' @ [last (tl d)])"
    using d(1) by (subst (asm) dd, simp)+
  with s dd l show "\<exists>l a b. s = l @ CHR ''@'' # a @ CHR ''.'' # b \<and> l \<noteq> [] \<and> a \<noteq> [] \<and> b \<noteq> [] \<and>
        list_all nonSpaceNonAt l \<and> list_all nonSpaceNonAt a \<and> list_all nonSpaceNonAt b"
    by (metis append_is_Nil_conv list.distinct(1))
next
  assume "\<exists>l a b. s = l @ CHR ''@'' # a @ CHR ''.'' # b \<and> l \<noteq> [] \<and> a \<noteq> [] \<and> b \<noteq> [] \<and>
        list_all nonSpaceNonAt l \<and> list_all nonSpaceNonAt a \<and> list_all nonSpaceNonAt b"
  then obtain l a b where s: "s = l @ CHR ''@'' # a @ CHR ''.'' # b"
    and ne: "l \<noteq> []" "a \<noteq> []" "b \<noteq> []"
    and pl: "list_all nonSpaceNonAt l" "list_all nonSpaceNonAt a" "list_all nonSpaceNonAt b"
    by blast
  have na: "\<forall>c\<in>set l. c \<noteq> CHR ''@''" using plain_no_at[OF pl(1)] by auto
  have tw: "takeWhile (\<lambda>c. c \<noteq> CHR ''@'') s = l"
    unfolding s using na by (simp add: takeWhile_tail)
  have dw: "dropWhile (\<lambda>c. c \<noteq> CHR ''@'') s = CHR ''@'' # a @ CHR ''.'' # b"
    unfolding s using na by (simp add: dropWhile_append3)
  have "butlast (tl (a @ CHR ''.'' # b)) = tl a @ CHR ''.'' # butlast b"
    using ne by (cases a) (simp_all add: butlast_append)
  then have "CHR ''.'' \<in> set (butlast (tl (a @ CHR ''.'' # b)))" by simp
  with tw dw ne pl show "isValidEmail s"
    by (simp add: isValidEmail_def dot_plain)
qed

section \<open>Batch accounting\<close>

text \<open>
  C1. With \<open>continueOnError\<close> true (given as a truthy value, or left at its default), the batch
  yields one outcome for every input file id: the outcome list is as long as the input,
  \<open>successful + failed\<close> equals that length, and so does \<open>total\<close>.
\<close>

theorem batch_continue_counts:
  assumes "truthy (case opts ''continueOnError'' of None \<Rightarrow> JBool True | Some v \<Rightarrow> v)"
  shows "length (results (fst (batchTransferOwnership D F email opts w))) = length F \<and>
         successful (summary (fst (batchTransferOwnership D F email opts w))) +
           failed (summary (fst (batchTransferOwnership D F email opts w))) = length F \<and>
         total (summary (fst (batchTransferOwnership D F email opts w))) = length F"
proof -
  let ?b = "fst (batchTransferOwnership D F email opts w)"
  have len: "length (results ?b) = length F"
    using batch_loop_continue_length[OF assms, of D F email opts _ 0 "[]" w]
    by (simp add: batch_results)
  have "successful (summary ?b) + failed (summary ?b) = length (results ?b)"
    by (subst batch_summary, subst batch_summary) (simp add: sum_length_filter_compl)
  moreover have "total (summary ?b) = length F"
    by (subst batch_summary) simp
  ultimately show ?thesis using len by simp
qed

theorem batch_continue_counts_witness:
  "truthy (case [''continueOnError'' \<mapsto> JBool True] ''continueOnError'' of
             None \<Rightarrow> JBool True | Some v \<Rightarrow> v) \<and>
   length (results (fst (batchTransferOwnership mem_drive [''F1'', ''F2'', ''F3''] ''b@x.com''
     [''continueOnError'' \<mapsto> JBool True] world0))) = 3 \<and>
   successful (summary (fst (batchTransferOwnership mem_drive [''F1'', ''F2'', ''F3''] ''b@x.com''
     [''continueOnError'' \<mapsto> JBool True] world0))) = 2 \<and>
   failed (summary (fst (batchTransferOwnership mem_drive [''F1'', ''F2'', ''F3''] ''b@x.com''
     [''continueOnError'' \<mapsto> JBool True] world0))) = 1 \<and>
   total (summary (fst (batchTransferOwnership mem_drive [''F1'', ''F2'', ''F3''] ''b@x.com''
     [''continueOnError'' \<mapsto> JBool True] world0))) = 3"
proof -
  have h: "truthy (case [''continueOnError'' \<mapsto> JBool True] ''continueOnError'' of
             None \<Rightarrow> JBool True | Some v \<Rightarrow> v)" by simp
  have ev: "successful (summary (fst (batchTransferOwnership mem_drive [''F1'', ''F2'', ''F3'']
      ''b@x.com'' [''continueOnError'' \<mapsto> JBool True] world0))) = 2"
    by (simp add: run_defs batch_loop.simps)
  show ?thesis
    using h ev batch_continue_counts[where opts = "[''continueOnError'' \<mapsto> JBool True]"
        and D = mem_drive and F = "[''F1'', ''F2'', ''F3'']" and email = "''b@x.com''"
        and w = world0]
    by simp
qed

text \<open>
  C5. With \<open>continueOnError\<close> false the batch stops at the first failure. Any failed outcome
  is the last outcome (so the outcome list is no longer than the index of the first failure
  plus one, and at most one outcome is failed); when some input is left unprocessed the last
  outcome is a failed one; the outcomes belong to a prefix of the input; \<open>successful + failed\<close>
  counts exactly the outcomes, hence at most \<open>total\<close>, which is still the input length.
  The outcomes are those of the transfers of that prefix, run one after the other, and the
  batch ends in the world the last of them left: after the failing transfer nothing is
  requested and no delay is taken. In particular the \<^verbatim>\<open>files.get\<close> requests of the run
  are, in order, exactly the file ids of the outcomes, so no request is sent for an element
  after the first failure.
\<close>

theorem batch_halts_at_first_failure:
  assumes "\<not> truthy (case opts ''continueOnError'' of None \<Rightarrow> JBool True | Some v \<Rightarrow> v)"
    and "batchTransferOwnership D F email opts w = (b, w')"
  shows "total (summary b) = length F \<and>
         successful (summary b) + failed (summary b) = length (results b) \<and>
         successful (summary b) + failed (summary b) \<le> total (summary b) \<and>
         failed (summary b) \<le> 1 \<and>
         (\<forall>k<length (results b). \<not> success (results b ! k) \<longrightarrow> length (results b) = Suc k) \<and>
         (length (results b) < length F \<longrightarrow> results b \<noteq> [] \<and> \<not> success (last (results b))) \<and>
         map fileId (results b) = take (length (results b)) F \<and>
         processed D F email opts
           (case opts ''delayBetweenTransfers'' of None \<Rightarrow> JNum 1000 | Some v \<Rightarrow> v)
           0 w (results b) w' \<and>
         requested (drop (length (trace w)) (trace w')) = map fileId (results b)"
proof -
  have b: "b = fst (batchTransferOwnership D F email opts w)" using assms(2) by simp
  from batch_loop_break[OF assms(1), of D F email opts _ 0 "[]" w]
  have brk: "length (results b) \<le> length F"
    "length (filter (\<lambda>r. \<not> success r) (results b)) \<le> 1"
    "\<forall>k<length (results b). \<not> success (results b ! k) \<longrightarrow> length (results b) = Suc k"
    "length (results b) < length F \<longrightarrow> results b \<noteq> [] \<and> \<not> success (last (results b))"
    by (auto simp: b batch_results)
  from batch_loop_fileIds[of D F email opts _ _ 0 "[]" w]
  have ord: "map fileId (results b) = take (length (results b)) F"
    by (auto simp: b batch_results)
  have tot: "total (summary b) = length F"
    unfolding b by (subst batch_summary) simp
  have fl: "failed (summary b) = length (filter (\<lambda>r. \<not> success r) (results b))"
    unfolding b by (subst batch_summary) simp
  have sm: "successful (summary b) + failed (summary b) = length (results b)"
    unfolding b
    by (subst batch_summary, subst batch_summary) (simp add: sum_length_filter_compl)
  have pr: "processed D F email opts
           (case opts ''delayBetweenTransfers'' of None \<Rightarrow> JNum 1000 | Some v \<Rightarrow> v)
           0 w (results b) w'"
    using batch_processed[OF assms(2)] by blast
  from batch_requested[OF assms(2)]
  have rq: "requested (drop (length (trace w)) (trace w')) = map fileId (results b)"
    by auto
  have c1: "successful (summary b) + failed (summary b) \<le> total (summary b)"
    using sm tot brk(1) by simp
  have c2: "failed (summary b) \<le> 1" using fl brk(2) by simp
  from tot sm c1 c2 brk(3) brk(4) ord pr rq show ?thesis by blast
qed

theorem batch_halts_at_first_failure_witness:
  "\<not> truthy (case [''continueOnError'' \<mapsto> JBool False] ''continueOnError'' of
               None \<Rightarrow> JBool True | Some v \<Rightarrow> v) \<and>
   map fileId (results (fst (batchTransferOwnership mem_drive [''F1'', ''F2'', ''F3''] ''b@x.com''
     [''continueOnError'' \<mapsto> JBool False] world0))) = [''F1'', ''F2''] \<and>
   map success (results (fst (batchTransferOwnership mem_drive [''F1'', ''F2'', ''F3''] ''b@x.com''
     [''continueOnError'' \<mapsto> JBool False] world0))) = [True, False] \<and>
   successful (summary (fst (batchTransferOwnership mem_drive [''F1'', ''F2'', ''F3''] ''b@x.com''
     [''continueOnError'' \<mapsto> JBool False] world0))) +
   failed (summary (fst (batchTransferOwnership mem_drive [''F1'', ''F2'', ''F3''] ''b@x.com''
     [''continueOnError'' \<mapsto> JBool False] world0))) = 2 \<and>
   total (summary (fst (batchTransferOwnership mem_drive [''F1'', ''F2'', ''F3''] ''b@x.com''
     [''continueOnError'' \<mapsto> JBool False] world0))) = 3 \<and>
   requested (trace (snd (batchTransferOwnership mem_drive [''F1'', ''F2'', ''F3''] ''b@x.com''
     [''continueOnError'' \<mapsto> JBool False] world0))) = [''F1'', ''F2''] \<and>
   trace (snd (batchTransferOwnership mem_drive [''F1'', ''F2'', ''F3''] ''b@x.com''
     [''continueOnError'' \<mapsto> JBool False] world0)) =
     [Api (GetFile ''F1''), Api (ListPermissions ''F1''),
      Api (CreatePermission ''F1'' ''writer'' ''user'' ''b@x.com''),
      Api (ListPermissions ''F1''),
      Api (UpdatePermission ''F1'' ''id-b@x.com'' ''owner'' True (JBool False)),
      Delay (JNum 1000),
      Api (GetFile ''F2'')]"
proof -
  let ?run = "batchTransferOwnership mem_drive [''F1'', ''F2'', ''F3''] ''b@x.com''
     [''continueOnError'' \<mapsto> JBool False] world0"
  let ?b = "fst ?run"
  have h: "\<not> truthy (case [''continueOnError'' \<mapsto> JBool False] ''continueOnError'' of
               None \<Rightarrow> JBool True | Some v \<Rightarrow> v)" by simp
  have run: "?run = (?b, snd ?run)" by simp
  have ev: "map success (results ?b) = [True, False]"
    by (simp add: run_defs batch_loop.simps)
  have tr: "trace (snd ?run) =
     [Api (GetFile ''F1''), Api (ListPermissions ''F1''),
      Api (CreatePermission ''F1'' ''writer'' ''user'' ''b@x.com''),
      Api (ListPermissions ''F1''),
      Api (UpdatePermission ''F1'' ''id-b@x.com'' ''owner'' True (JBool False)),
      Delay (JNum 1000),
      Api (GetFile ''F2'')]"
    by (simp add: run_defs batch_loop.simps)
  have len: "length (results ?b) = 2"
    using arg_cong[OF ev, of length] by simp
  have tw: "trace world0 = []" by (simp add: world0_def)
  note T = batch_halts_at_first_failure[where opts = "[''continueOnError'' \<mapsto> JBool False]"
      and D = mem_drive and F = "[''F1'', ''F2'', ''F3'']" and email = "''b@x.com''"
      and w = world0 and b = ?b and w' = "snd ?run", OF h run]
  have tot: "total (summary ?b) = length [''F1'', ''F2'', ''F3'']"
    by (rule T[THEN conjunct1])
  have sm: "successful (summary ?b) + failed (summary ?b) = length (results ?b)"
    by (rule T[THEN conjunct2, THEN conjunct1])
  have ord: "map fileId (results ?b) = take (length (results ?b)) [''F1'', ''F2'', ''F3'']"
    by (rule T[THEN conjunct2, THEN conjunct2, THEN conjunct2, THEN conjunct2,
          THEN conjunct2, THEN conjunct2, THEN conjunct1])
  have rq: "requested (drop (length (trace world0)) (trace (snd ?run))) = map fileId (results ?b)"
    by (rule T[THEN conjunct2, THEN conjunct2, THEN conjunct2, THEN conjunct2,
          THEN conjunct2, THEN conjunct2, THEN conjunct2, THEN conjunct2])
  from ord len have ord2: "map fileId (results ?b) = [''F1'', ''F2'']" by simp
  from rq tw ord2 have rq2: "requested (trace (snd ?run)) = [''F1'', ''F2'']" by simp
  from h ev len tot sm ord2 rq2 tr show ?thesis by simp
qed

section \<open>Order of the outcomes\<close>

text \<open>
  C7. The outcomes come in input order. The outcome list is exactly the record of the
  transfers of the first elements of the input, run one after the other: its i-th outcome is
  what the transfer of the i-th element gave. Its file ids are the first file ids of the
  input, and they are, in order, the file ids of the \<^verbatim>\<open>files.get\<close> requests of the run, so
  every processed element has its outcome and no outcome stands for an element that was not
  processed. The list is shorter than the input only when \<open>continueOnError\<close> is false and its
  last outcome is a failed one.
\<close>

theorem batch_results_in_input_order:
  assumes "batchTransferOwnership D F email opts w = (b, w')"
  shows "map fileId (results b) = take (length (results b)) F \<and>
         processed D F email opts
           (case opts ''delayBetweenTransfers'' of None \<Rightarrow> JNum 1000 | Some v \<Rightarrow> v)
           0 w (results b) w' \<and>
         requested (drop (length (trace w)) (trace w')) = map fileId (results b) \<and>
         (length (results b) = length F \<or>
          (\<not> truthy (case opts ''continueOnError'' of None \<Rightarrow> JBool True | Some v \<Rightarrow> v) \<and>
           results b \<noteq> [] \<and> \<not> success (last (results b))))"
proof -
  have b: "b = fst (batchTransferOwnership D F email opts w)" using assms by simp
  from batch_loop_fileIds[of D F email opts _ _ 0 "[]" w]
  have ord: "map fileId (results b) = take (length (results b)) F"
    by (auto simp: b batch_results)
  from batch_requested[OF assms]
  have rq: "requested (drop (length (trace w)) (trace w')) = map fileId (results b)"
    by auto
  from ord rq batch_processed[OF assms] show ?thesis by blast
qed

theorem batch_results_in_input_order_witness:
  "map fileId (results (fst (batchTransferOwnership mem_drive [''F3'', ''F2'', ''F1''] ''b@x.com''
     Map.empty world0))) = [''F3'', ''F2'', ''F1''] \<and>
   map success (results (fst (batchTransferOwnership mem_drive [''F3'', ''F2'', ''F1''] ''b@x.com''
     Map.empty world0))) = [True, False, True] \<and>
   requested (trace (snd (batchTransferOwnership mem_drive [''F3'', ''F2'', ''F1''] ''b@x.com''
     Map.empty world0))) = [''F3'', ''F2'', ''F1'']"
proof -
  let ?run = "batchTransferOwnership mem_drive [''F3'', ''F2'', ''F1''] ''b@x.com''
     Map.empty world0"
  let ?b = "fst ?run"
  have run: "?run = (?b, snd ?run)" by simp
  have ev: "map success (results ?b) = [True, False, True]"
    by (simp add: run_defs batch_loop.simps)
  have len: "length (results ?b) = 3"
    using arg_cong[OF ev, of length] by simp
  have tw: "trace world0 = []" by (simp add: world0_def)
  note T = batch_results_in_input_order[OF run]
  have ord: "map fileId (results ?b) = take (length (results ?b)) [''F3'', ''F2'', ''F1'']"
    by (rule T[THEN conjunct1])
  have rq: "requested (drop (length (trace world0)) (trace (snd ?run))) = map fileId (results ?b)"
    by (rule T[THEN conjunct2, THEN conjunct2, THEN conjunct1])
  from ord len have ord2: "map fileId (results ?b) = [''F3'', ''F2'', ''F1'']" by simp
  from rq tw ord2 have "requested (trace (snd ?run)) = [''F3'', ''F2'', ''F1'']" by simp
  with ord2 ev show ?thesis by simp
qed

section \<open>The empty batch\<close>

text \<open>
  C10. On the empty input the batch returns no outcome and the summary
  \<open>{successful: 0, failed: 0, total: 0}\<close>, and leaves the world as it was: no request is sent
  and no delay is taken.
\<close>

theorem batch_empty:
  "batchTransferOwnership D [] email opts w =
     (\<lparr>results = [], summary = \<lparr>successful = 0, failed = 0, total = 0\<rparr>\<rparr>, w)"
  by (simp add: batchTransferOwnership_def Let_def batch_loop_step)

section \<open>Pacing\<close>

text \<open>
  In general, a run takes as many delays as there are successful outcomes among the
  elements before the last position of the input.
\<close>

lemma batch_delay_count:
  "length (filter is_delay (drop (length (trace w))
      (trace (snd (batchTransferOwnership D F email opts w))))) =
   length (filter success
      (take (length F - 1) (results (fst (batchTransferOwnership D F email opts w)))))"
proof -
  from batch_loop_delays[of D F email opts
      "case opts ''delayBetweenTransfers'' of None \<Rightarrow> JNum 1000 | Some v \<Rightarrow> v"
      "case opts ''continueOnError'' of None \<Rightarrow> JBool True | Some v \<Rightarrow> v" 0 "[]" w]
  obtain evs where
    "trace (snd (batchTransferOwnership D F email opts w)) = trace w @ evs"
    "length (filter is_delay evs) = length (filter success
       (take (length F - 1) (results (fst (batchTransferOwnership D F email opts w)))))"
    by (auto simp: batch_results batch_world)
  then show ?thesis by simp
qed

text \<open>
  C6. The delay is taken inside the \<^verbatim>\<open>try\<close> block, so it is skipped when the transfer
  throws. On the in-memory Drive, with \<open>F2\<close> missing and \<open>continueOnError\<close> true, the batch
  over \<open>F1\<close>, \<open>F2\<close>, \<open>F3\<close> sleeps after \<open>F1\<close> but not after \<open>F2\<close>: the failed request for
  \<open>F2\<close> is followed at once by the first request for \<open>F3\<close>.
\<close>

theorem batch_no_delay_after_failure:
  "trace (snd (batchTransferOwnership mem_drive [''F1'', ''F2'', ''F3''] ''b@x.com''
     [''continueOnError'' \<mapsto> JBool True] world0)) =
   [Api (GetFile ''F1''), Api (ListPermissions ''F1''),
    Api (CreatePermission ''F1'' ''writer'' ''user'' ''b@x.com''),
    Api (ListPermissions ''F1''),
    Api (UpdatePermission ''F1'' ''id-b@x.com'' ''owner'' True (JBool False)),
    Delay (JNum 1000),
    Api (GetFile ''F2''),
    Api (GetFile ''F3''), Api (ListPermissions ''F3''),
    Api (CreatePermission ''F3'' ''writer'' ''user'' ''b@x.com''),
    Api (ListPermissions ''F3''),
    Api (UpdatePermission ''F3'' ''id-b@x.com'' ''owner'' True (JBool False))]"
  by (simp add: run_defs batch_loop.simps)

section \<open>Recognized options\<close>

text \<open>
  C8, as stated, fails: the option \<open>delayBetweenTransfersMs\<close> is not read, and a batch given
  \<open>{delayBetweenTransfersMs: 5}\<close> sleeps for the default 1000.
\<close>

theorem batch_delay_option_name_counterexample:
  "trace (snd (batchTransferOwnership mem_drive [''F1'', ''F3''] ''b@x.com''
     [''delayBetweenTransfersMs'' \<mapsto> JNum 5] world0)) =
   [Api (GetFile ''F1''), Api (ListPermissions ''F1''),
    Api (CreatePermission ''F1'' ''writer'' ''user'' ''b@x.com''),
    Api (ListPermissions ''F1''),
    Api (UpdatePermission ''F1'' ''id-b@x.com'' ''owner'' True (JBool False)),
    Delay (JNum 1000),
    Api (GetFile ''F3''), Api (ListPermissions ''F3''),
    Api (CreatePermission ''F3'' ''writer'' ''user'' ''b@x.com''),
    Api (ListPermissions ''F3''),
    Api (UpdatePermission ''F3'' ''id-b@x.com'' ''owner'' True (JBool False))]"
  by (simp add: run_defs batch_loop.simps)

text \<open>
  C8, amended. The batch reads the option \<open>delayBetweenTransfers\<close>, default 1000, and the
  option \<open>continueOnError\<close>, default true. Write \<open>d\<close> for the value of \<open>delayBetweenTransfers\<close>;
  for a caller passing \<open>{delayBetweenTransfers: n}\<close> with \<open>n\<close> a non-negative integer it is
  \<open>n\<close>. Then \<^verbatim>\<open>this.delay\<close> is called with \<open>d\<close> and with no other value; after each element
  that is not the last of the input and whose transfer succeeded, a call of \<^verbatim>\<open>this.delay(d)\<close>
  stands between the requests of that element and the requests of the next one; and when
  \<open>continueOnError\<close> is not given every input element gets an outcome. The trace records the
  argument handed to \<^verbatim>\<open>this.delay\<close>, not the time that passes.
\<close>

theorem batch_recognized_options:
  assumes "batchTransferOwnership D F email opts w = (b, w')"
    and "d = (case opts ''delayBetweenTransfers'' of None \<Rightarrow> JNum 1000 | Some v \<Rightarrow> v)"
  shows "processed D F email opts d 0 w (results b) w' \<and>
     (\<forall>ms. Delay ms \<in> set (drop (length (trace w)) (trace w')) \<longrightarrow> ms = d) \<and>
     (\<forall>k. Suc k < length F \<and> k < length (results b) \<and> success (results b ! k) \<longrightarrow>
        (\<exists>pre post. drop (length (trace w)) (trace w') = pre @ Delay d # post \<and>
           requested pre = map fileId (take (Suc k) (results b)) \<and>
           requested post = map fileId (drop (Suc k) (results b)))) \<and>
     length (filter success (take (length F - 1) (results b)))
       \<le> length (filter is_delay (drop (length (trace w)) (trace w'))) \<and>
     (opts ''continueOnError'' = None \<longrightarrow> length (results b) = length F)"
proof -
  let ?c = "case opts ''continueOnError'' of None \<Rightarrow> JBool True | Some v \<Rightarrow> v"
  have b: "b = fst (batchTransferOwnership D F email opts w)"
    and w': "w' = snd (batchTransferOwnership D F email opts w)"
    using assms(1) by simp_all
  have pr: "processed D F email opts d 0 w (results b) w'"
    using batch_processed[OF assms(1)] assms(2) by blast
  from batch_loop_delays[of D F email opts d ?c 0 "[]" w]
  obtain evs where
    t: "trace w' = trace w @ evs" and
    dl: "\<forall>ms. Delay ms \<in> set evs \<longrightarrow> ms = d" and
    n: "length (filter is_delay evs) = length (filter success (take (length F - 1) (results b)))"
    unfolding b w' assms(2) by (auto simp: batch_results batch_world)
  have 2: "\<forall>ms. Delay ms \<in> set (drop (length (trace w)) (trace w')) \<longrightarrow> ms = d"
    using t dl by simp
  have 3: "\<forall>k. Suc k < length F \<and> k < length (results b) \<and> success (results b ! k) \<longrightarrow>
        (\<exists>pre post. drop (length (trace w)) (trace w') = pre @ Delay d # post \<and>
           requested pre = map fileId (take (Suc k) (results b)) \<and>
           requested post = map fileId (drop (Suc k) (results b)))"
  proof (intro allI impI)
    fix k assume k: "Suc k < length F \<and> k < length (results b) \<and> success (results b ! k)"
    then have "k < length (results b)" "Suc (0 + k) < length F" "success (results b ! k)"
      by simp_all
    from processed_delay_between[OF pr this] obtain pre post where
      "trace w' = trace w @ pre @ Delay d # post"
      "requested pre = map fileId (take (Suc k) (results b))"
      "requested post = map fileId (drop (Suc k) (results b))" by blast
    then have "drop (length (trace w)) (trace w') = pre @ Delay d # post \<and>
           requested pre = map fileId (take (Suc k) (results b)) \<and>
           requested post = map fileId (drop (Suc k) (results b))" by simp
    then show "\<exists>pre post. drop (length (trace w)) (trace w') = pre @ Delay d # post \<and>
           requested pre = map fileId (take (Suc k) (results b)) \<and>
           requested post = map fileId (drop (Suc k) (results b))" by blast
  qed
  have 4: "length (filter success (take (length F - 1) (results b)))
       \<le> length (filter is_delay (drop (length (trace w)) (trace w')))"
    using t n by simp
  have 5: "opts ''continueOnError'' = None \<longrightarrow> length (results b) = length F"
    using batch_loop_continue_length[of ?c D F email opts d 0 "[]" w]
    unfolding b assms(2) by (auto simp: batch_results)
  from pr 2 3 4 5 show ?thesis by blast
qed

theorem batch_recognized_options_witness:
  "trace (snd (batchTransferOwnership mem_drive [''F1'', ''F3''] ''b@x.com''
      [''delayBetweenTransfers'' \<mapsto> JNum 5] world0)) =
     [Api (GetFile ''F1''), Api (ListPermissions ''F1''),
      Api (CreatePermission ''F1'' ''writer'' ''user'' ''b@x.com''),
      Api (ListPermissions ''F1''),
      Api (UpdatePermission ''F1'' ''id-b@x.com'' ''owner'' True (JBool False)),
      Delay (JNum 5),
      Api (GetFile ''F3''), Api (ListPermissions ''F3''),
      Api (CreatePermission ''F3'' ''writer'' ''user'' ''b@x.com''),
      Api (ListPermissions ''F3''),
      Api (UpdatePermission ''F3'' ''id-b@x.com'' ''owner'' True (JBool False))] \<and>
   Delay (JNum 1000) \<notin> set (trace (snd (batchTransferOwnership mem_drive [''F1'', ''F3'']
      ''b@x.com'' [''delayBetweenTransfers'' \<mapsto> JNum 5] world0))) \<and>
   length (results (fst (batchTransferOwnership mem_drive [''F1'', ''F3'']
      ''b@x.com'' [''delayBetweenTransfers'' \<mapsto> JNum 5] world0))) = 2 \<and>
   (\<exists>pre post. trace (snd (batchTransferOwnership mem_drive [''F1'', ''F3'']
        ''b@x.com'' [''delayBetweenTransfers'' \<mapsto> JNum 5] world0)) = pre @ Delay (JNum 5) # post \<and>
      requested pre = [''F1''] \<and> requested post = [''F3''])"
proof -
  let ?opts = "[''delayBetweenTransfers'' \<mapsto> JNum 5]"
  let ?run = "batchTransferOwnership mem_drive [''F1'', ''F3''] ''b@x.com''
                [''delayBetweenTransfers'' \<mapsto> JNum 5] world0"
  have run: "?run = (fst ?run, snd ?run)" by simp
  have d: "JNum 5 = (case ?opts ''delayBetweenTransfers'' of None \<Rightarrow> JNum 1000 | Some v \<Rightarrow> v)"
    by simp
  have tw: "trace world0 = []" by (simp add: world0_def)
  have tr: "trace (snd ?run) =
     [Api (GetFile ''F1''), Api (ListPermissions ''F1''),
      Api (CreatePermission ''F1'' ''writer'' ''user'' ''b@x.com''),
      Api (ListPermissions ''F1''),
      Api (UpdatePermission ''F1'' ''id-b@x.com'' ''owner'' True (JBool False)),
      Delay (JNum 5),
      Api (GetFile ''F3''), Api (ListPermissions ''F3''),
      Api (CreatePermission ''F3'' ''writer'' ''user'' ''b@x.com''),
      Api (ListPermissions ''F3''),
      Api (UpdatePermission ''F3'' ''id-b@x.com'' ''owner'' True (JBool False))]"
    by (simp add: run_defs batch_loop.simps)
  have fs: "map fileId (results (fst ?run)) = [''F1'', ''F3'']"
    "success (results (fst ?run) ! 0)"
    by (simp_all add: run_defs batch_loop.simps)
  note T = batch_recognized_options[where D = mem_drive and F = "[''F1'', ''F3'']"
      and email = "''b@x.com''" and opts = ?opts and w = world0 and b = "fst ?run"
      and w' = "snd ?run" and d = "JNum 5", OF run d]
  have all5: "\<forall>ms. Delay ms \<in> set (drop (length (trace world0)) (trace (snd ?run))) \<longrightarrow>
                ms = JNum 5"
    by (rule T[THEN conjunct2, THEN conjunct1])
  have btw: "\<forall>k. Suc k < length [''F1'', ''F3''] \<and> k < length (results (fst ?run)) \<and>
          success (results (fst ?run) ! k) \<longrightarrow>
        (\<exists>pre post. drop (length (trace world0)) (trace (snd ?run)) = pre @ Delay (JNum 5) # post \<and>
           requested pre = map fileId (take (Suc k) (results (fst ?run))) \<and>
           requested post = map fileId (drop (Suc k) (results (fst ?run))))"
    by (rule T[THEN conjunct2, THEN conjunct2, THEN conjunct1])
  have len2: "length (results (fst ?run)) = 2"
    using T[THEN conjunct2, THEN conjunct2, THEN conjunct2, THEN conjunct2] by simp
  have "Suc 0 < length [''F1'', ''F3''] \<and> 0 < length (results (fst ?run)) \<and>
          success (results (fst ?run) ! 0)"
    using len2 fs(2) by simp
  with btw obtain pre post where
    pp: "drop (length (trace world0)) (trace (snd ?run)) = pre @ Delay (JNum 5) # post"
      "requested pre = map fileId (take (Suc 0) (results (fst ?run)))"
      "requested post = map fileId (drop (Suc 0) (results (fst ?run)))"
    by blast
  have "requested pre = [''F1'']" "requested post = [''F3'']"
    using pp(2,3) fs(1) by (simp_all add: take_map[symmetric] drop_map[symmetric])
  with pp(1) tw have ex: "\<exists>pre post. trace (snd ?run) = pre @ Delay (JNum 5) # post \<and>
      requested pre = [''F1''] \<and> requested post = [''F3'']"
    by auto
  have "Delay (JNum 1000) \<notin> set (trace (snd ?run))" using all5 tw by auto
  with tr len2 ex show ?thesis by blast
qed

section \<open>The single transfer\<close>

text \<open>
  C4, as stated, fails when the target email is listed more than once:
  \<^verbatim>\<open>find\<close> returns the first permission with the target's email, here a writer, although
  a later permission gives the same email the owner role. The transfer does not
  short-circuit and sends an update.
\<close>

theorem already_owner_counterexample:
  "fst (permissions_list mem_drive ''F1'' mem_twice) =
     Inr [\<lparr>perm_id = ''p1'', role = ''writer'', perm_type = ''user'',
            emailAddress = Some ''b@x.com''\<rparr>,
          \<lparr>perm_id = ''p2'', role = ''owner'', perm_type = ''user'',
            emailAddress = Some ''b@x.com''\<rparr>] \<and>
   fst (transferFileOwnership mem_drive ''F1'' ''b@x.com'' Map.empty
          \<lparr>drv = mem_twice, trace = []\<rparr>) =
     Inr \<lparr>success = True, message = Some ''Ownership transferred successfully'', error = None,
          fileId = ''F1'', fileName = Some ''report.txt'', newOwner = Some ''b@x.com''\<rparr> \<and>
   trace (snd (transferFileOwnership mem_drive ''F1'' ''b@x.com'' Map.empty
                 \<lparr>drv = mem_twice, trace = []\<rparr>)) =
     [Api (GetFile ''F1''), Api (ListPermissions ''F1''), Api (ListPermissions ''F1''),
      Api (UpdatePermission ''F1'' ''p1'' ''owner'' True (JBool False))]"
  by (simp add: run_defs)

text \<open>
  C4, amended. Whenever the file can be fetched and the first permission listed for the
  target email has the owner role (which is the only permission for that email when email
  addresses are unique, see \<open>find_unique_email\<close>), the transfer returns success with message
  \<open>Already owner\<close> after exactly two read requests, \<^verbatim>\<open>files.get\<close> and
  \<^verbatim>\<open>permissions.list\<close>, and no write. So a second transfer right after a first one that
  left the Drive listing the target as owner succeeds without a promotion request.
\<close>

theorem already_owner_short_circuit:
  assumes "files_get D fid (drv w) = (Inr f, s1)"
    and "permissions_list D fid s1 = (Inr perms, s2)"
    and "find (\<lambda>perm. emailAddress perm = Some email) perms = Some p"
    and "role p = ''owner''"
  shows "transferFileOwnership D fid email opts w =
           (Inr \<lparr>success = True, message = Some ''Already owner'', error = None,
                 fileId = fid, fileName = Some (name f), newOwner = None\<rparr>,
            \<lparr>drv = s2, trace = trace w @ [Api (GetFile fid), Api (ListPermissions fid)]\<rparr>)"
  using assms
  by (simp add: transferFileOwnership_def rethrow_def await_def return_def Let_def
      getFileDetails_def getFilePermissions_def call_def)

text \<open>The witness runs the transfer twice on the in-memory Drive.\<close>

theorem already_owner_short_circuit_witness:
  "fst (transferFileOwnership mem_drive ''F1'' ''b@x.com'' Map.empty world0) =
     Inr \<lparr>success = True, message = Some ''Ownership transferred successfully'', error = None,
          fileId = ''F1'', fileName = Some ''report.txt'', newOwner = Some ''b@x.com''\<rparr> \<and>
   fst (transferFileOwnership mem_drive ''F1'' ''b@x.com'' Map.empty
          (snd (transferFileOwnership mem_drive ''F1'' ''b@x.com'' Map.empty world0))) =
     Inr \<lparr>success = True, message = Some ''Already owner'', error = None,
          fileId = ''F1'', fileName = Some ''report.txt'', newOwner = None\<rparr> \<and>
   trace (snd (transferFileOwnership mem_drive ''F1'' ''b@x.com'' Map.empty
          (snd (transferFileOwnership mem_drive ''F1'' ''b@x.com'' Map.empty world0)))) =
     trace (snd (transferFileOwnership mem_drive ''F1'' ''b@x.com'' Map.empty world0)) @
       [Api (GetFile ''F1''), Api (ListPermissions ''F1'')]"
proof -
  let ?w1 = "snd (transferFileOwnership mem_drive ''F1'' ''b@x.com'' Map.empty world0)"
  let ?b = "\<lparr>perm_id = ''id-b@x.com'', role = ''owner'', perm_type = ''user'',
             emailAddress = Some ''b@x.com''\<rparr>"
  have first: "fst (transferFileOwnership mem_drive ''F1'' ''b@x.com'' Map.empty world0) =
     Inr \<lparr>success = True, message = Some ''Ownership transferred successfully'', error = None,
          fileId = ''F1'', fileName = Some ''report.txt'', newOwner = Some ''b@x.com''\<rparr>"
    by (simp add: run_defs)
  have g: "files_get mem_drive ''F1'' (drv ?w1) = (Inr file1, drv ?w1)"
    by (simp add: run_defs)
  have l: "permissions_list mem_drive ''F1'' (drv ?w1) = (Inr [owner_a, ?b], drv ?w1)"
    by (simp add: run_defs)
  have f: "find (\<lambda>perm. emailAddress perm = Some ''b@x.com'') [owner_a, ?b] = Some ?b"
    by (simp add: owner_a_def)
  have r: "role ?b = ''owner''" by simp
  from already_owner_short_circuit[OF g l f r, of Map.empty] first
  show ?thesis by (simp add: file1_def)
qed

text \<open>
  C3, as stated, fails: with the option \<open>transferOwnership\<close> set to false the transfer
  returns success after giving the target the writer role only. On the in-memory Drive the
  target is listed as writer, not owner, once the operation is complete.
\<close>

theorem success_without_promotion_counterexample:
  "fst (transferFileOwnership mem_drive ''F1'' ''b@x.com'' [''transferOwnership'' \<mapsto> JBool False]
          world0) =
     Inr \<lparr>success = True, message = Some ''Ownership transferred successfully'', error = None,
          fileId = ''F1'', fileName = Some ''report.txt'', newOwner = Some ''b@x.com''\<rparr> \<and>
   trace (snd (transferFileOwnership mem_drive ''F1'' ''b@x.com''
                 [''transferOwnership'' \<mapsto> JBool False] world0)) =
     [Api (GetFile ''F1''), Api (ListPermissions ''F1''),
      Api (CreatePermission ''F1'' ''writer'' ''user'' ''b@x.com'')] \<and>
   fst (permissions_list mem_drive ''F1''
          (drv (snd (transferFileOwnership mem_drive ''F1'' ''b@x.com''
                       [''transferOwnership'' \<mapsto> JBool False] world0)))) =
     Inr [\<lparr>perm_id = ''id-a@x.com'', role = ''owner'', perm_type = ''user'',
            emailAddress = Some ''a@x.com''\<rparr>,
          \<lparr>perm_id = ''id-b@x.com'', role = ''writer'', perm_type = ''user'',
            emailAddress = Some ''b@x.com''\<rparr>]"
  by (simp add: run_defs)

text \<open>
  C3, amended. A transfer that returns an outcome returns a success outcome for the file,
  after fetching the file and listing its permissions, and then one of two things happened.
  Either the first permission listed for the target email has the owner role and nothing was
  written (message \<open>Already owner\<close>). Or the message is \<open>Ownership transferred successfully\<close>:
  a writer permission for the target email was created if none was listed, and, when the
  option \<open>transferOwnership\<close> is truthy (the default), the permissions were listed again and
  the last request was the update, accepted by Drive, that sets the first permission listed
  for the target email to the owner role with the transfer flag set, the state Drive
  returned from it being the final one; with \<open>transferOwnership\<close> falsy the transfer ends
  after the creation, without any update.
\<close>

theorem transfer_success_cases:
  assumes "transferFileOwnership D fid email opts w = (Inr r, w')"
  shows "\<exists>f s1 perms s2.
    files_get D fid (drv w) = (Inr f, s1) \<and>
    permissions_list D fid s1 = (Inr perms, s2) \<and>
    success r \<and> fileId r = fid \<and> fileName r = Some (name f) \<and>
    ((\<exists>p. find (\<lambda>perm. emailAddress perm = Some email) perms = Some p \<and> role p = ''owner'' \<and>
          message r = Some ''Already owner'' \<and> drv w' = s2 \<and>
          trace w' = trace w @ [Api (GetFile fid), Api (ListPermissions fid)])
     \<or>
     (message r = Some ''Ownership transferred successfully'' \<and> newOwner r = Some email \<and>
      (\<exists>s3 created.
         (case find (\<lambda>perm. emailAddress perm = Some email) perms of
            None \<Rightarrow> created = [Api (CreatePermission fid ''writer'' ''user'' email)] \<and>
                    (\<exists>pid. permissions_create D fid ''writer'' ''user'' email s2 = (Inr pid, s3))
          | Some p \<Rightarrow> role p \<noteq> ''owner'' \<and> created = [] \<and> s3 = s2) \<and>
         (if truthy (case opts ''transferOwnership'' of None \<Rightarrow> JBool True | Some v \<Rightarrow> v)
          then \<exists>perms' s4 p'.
                 permissions_list D fid s3 = (Inr perms', s4) \<and>
                 find (\<lambda>perm. emailAddress perm = Some email) perms' = Some p' \<and>
                 permissions_update D fid (perm_id p') ''owner'' True
                   (case opts ''sendNotificationEmail'' of None \<Rightarrow> JBool False | Some v \<Rightarrow> v) s4 =
                   (Inr (), drv w') \<and>
                 trace w' = trace w @ [Api (GetFile fid), Api (ListPermissions fid)] @ created @
                   [Api (ListPermissions fid),
                    Api (UpdatePermission fid (perm_id p') ''owner'' True
                      (case opts ''sendNotificationEmail'' of None \<Rightarrow> JBool False | Some v \<Rightarrow> v))]
          else drv w' = s3 \<and>
               trace w' = trace w @ [Api (GetFile fid), Api (ListPermissions fid)] @ created))))"
proof -
  let ?t = "truthy (case opts ''transferOwnership'' of None \<Rightarrow> JBool True | Some v \<Rightarrow> v)"
  let ?n = "case opts ''sendNotificationEmail'' of None \<Rightarrow> JBool False | Some v \<Rightarrow> v"
  from assms obtain f w1 perms w2 where
    g: "getFileDetails D fid w = (Inr f, w1)" and
    l: "getFilePermissions D fid w1 = (Inr perms, w2)"
    by (auto simp: transferFileOwnership_def rethrow_def await_def Let_def
        split: prod.splits sum.splits)
  let ?ex = "find (\<lambda>perm. emailAddress perm = Some email) perms"
  have fg: "files_get D fid (drv w) = (Inr f, drv w1)"
    and pl: "permissions_list D fid (drv w1) = (Inr perms, drv w2)"
    and tw2: "trace w2 = trace w @ [Api (GetFile fid), Api (ListPermissions fid)]"
    using g l by (simp_all add: getFileDetails_Inr getFilePermissions_Inr)
  have sf: "success r \<and> fileId r = fid" using assms by (rule transfer_Inr)
  have main: "fileName r = Some (name f) \<and>
    ((\<exists>p. ?ex = Some p \<and> role p = ''owner'' \<and>
          message r = Some ''Already owner'' \<and> drv w' = drv w2 \<and>
          trace w' = trace w @ [Api (GetFile fid), Api (ListPermissions fid)])
     \<or>
     (message r = Some ''Ownership transferred successfully'' \<and> newOwner r = Some email \<and>
      (\<exists>s3 created.
         (case ?ex of
            None \<Rightarrow> created = [Api (CreatePermission fid ''writer'' ''user'' email)] \<and>
                    (\<exists>pid. permissions_create D fid ''writer'' ''user'' email (drv w2) = (Inr pid, s3))
          | Some p \<Rightarrow> role p \<noteq> ''owner'' \<and> created = [] \<and> s3 = drv w2) \<and>
         (if ?t
          then \<exists>perms' s4 p'.
                 permissions_list D fid s3 = (Inr perms', s4) \<and>
                 find (\<lambda>perm. emailAddress perm = Some email) perms' = Some p' \<and>
                 permissions_update D fid (perm_id p') ''owner'' True ?n s4 = (Inr (), drv w') \<and>
                 trace w' = trace w @ [Api (GetFile fid), Api (ListPermissions fid)] @ created @
                   [Api (ListPermissions fid),
                    Api (UpdatePermission fid (perm_id p') ''owner'' True ?n)]
          else drv w' = s3 \<and>
               trace w' = trace w @ [Api (GetFile fid), Api (ListPermissions fid)] @ created))))"
  proof (cases "case ?ex of None \<Rightarrow> False | Some p \<Rightarrow> role p = ''owner''")
    case True
    then obtain p where p: "?ex = Some p" "role p = ''owner''" by (auto split: option.splits)
    from assms g l True
    have "r = \<lparr>success = True, message = Some ''Already owner'', error = None,
               fileId = fid, fileName = Some (name f), newOwner = None\<rparr>" and "w' = w2"
      by (auto simp: transferFileOwnership_def rethrow_def await_def return_def Let_def)
    with tw2 p show ?thesis by simp
  next
    case False
    from assms g l False obtain w3 where
      a: "(if ?ex = None then await (addPermission D fid email ''writer'') (\<lambda>_. return ())
           else return ()) w2 = (Inr (), w3)"
      and b: "(if ?t then promoteToOwner D fid email ?n else return ()) w3 = (Inr (), w')"
      and r: "r = \<lparr>success = True, message = Some ''Ownership transferred successfully'',
                    error = None, fileId = fid, fileName = Some (name f),
                    newOwner = Some email\<rparr>"
      by (auto simp: transferFileOwnership_def rethrow_def await_def return_def Let_def
          split: prod.splits sum.splits)
    define created where
      "created = (if ?ex = None then [Api (CreatePermission fid ''writer'' ''user'' email)] else [])"
    have cr: "case ?ex of
            None \<Rightarrow> created = [Api (CreatePermission fid ''writer'' ''user'' email)] \<and>
                    (\<exists>pid. permissions_create D fid ''writer'' ''user'' email (drv w2) = (Inr pid, drv w3))
          | Some p \<Rightarrow> role p \<noteq> ''owner'' \<and> created = [] \<and> drv w3 = drv w2"
      and tw3: "trace w3 = trace w2 @ created"
      using a False
      by (auto simp: created_def await_def return_def addPermission_Inr
          split: option.splits if_splits prod.splits sum.splits)
    have pr: "if ?t
          then \<exists>perms' s4 p'.
                 permissions_list D fid (drv w3) = (Inr perms', s4) \<and>
                 find (\<lambda>perm. emailAddress perm = Some email) perms' = Some p' \<and>
                 permissions_update D fid (perm_id p') ''owner'' True ?n s4 = (Inr (), drv w') \<and>
                 trace w' = trace w @ [Api (GetFile fid), Api (ListPermissions fid)] @ created @
                   [Api (ListPermissions fid),
                    Api (UpdatePermission fid (perm_id p') ''owner'' True ?n)]
          else drv w' = drv w3 \<and>
               trace w' = trace w @ [Api (GetFile fid), Api (ListPermissions fid)] @ created"
    proof (cases ?t)
      case True
      with b have "promoteToOwner D fid email ?n w3 = (Inr (), w')" by simp
      from promoteToOwner_Inr_exact[OF this] show ?thesis
        using True tw2 tw3 by auto
    next
      case False
      with b have "w' = w3" by (simp add: return_def)
      with False tw2 tw3 show ?thesis by simp
    qed
    from cr pr have "\<exists>s3 created.
         (case ?ex of
            None \<Rightarrow> created = [Api (CreatePermission fid ''writer'' ''user'' email)] \<and>
                    (\<exists>pid. permissions_create D fid ''writer'' ''user'' email (drv w2) = (Inr pid, s3))
          | Some p \<Rightarrow> role p \<noteq> ''owner'' \<and> created = [] \<and> s3 = drv w2) \<and>
         (if ?t
          then \<exists>perms' s4 p'.
                 permissions_list D fid s3 = (Inr perms', s4) \<and>
                 find (\<lambda>perm. emailAddress perm = Some email) perms' = Some p' \<and>
                 permissions_update D fid (perm_id p') ''owner'' True ?n s4 = (Inr (), drv w') \<and>
                 trace w' = trace w @ [Api (GetFile fid), Api (ListPermissions fid)] @ created @
                   [Api (ListPermissions fid),
                    Api (UpdatePermission fid (perm_id p') ''owner'' True ?n)]
          else drv w' = s3 \<and>
               trace w' = trace w @ [Api (GetFile fid), Api (ListPermissions fid)] @ created)"
      by (intro exI[of _ "drv w3"] exI[of _ created]) simp
    with r show ?thesis by simp
  qed
  from fg pl sf main show ?thesis by blast
qed

theorem transfer_success_cases_witness:
  "fst (transferFileOwnership mem_drive ''F1'' ''b@x.com'' Map.empty world0) =
     Inr \<lparr>success = True, message = Some ''Ownership transferred successfully'', error = None,
          fileId = ''F1'', fileName = Some ''report.txt'', newOwner = Some ''b@x.com''\<rparr> \<and>
   trace (snd (transferFileOwnership mem_drive ''F1'' ''b@x.com'' Map.empty world0)) =
     [Api (GetFile ''F1''), Api (ListPermissions ''F1''),
      Api (CreatePermission ''F1'' ''writer'' ''user'' ''b@x.com''),
      Api (ListPermissions ''F1''),
      Api (UpdatePermission ''F1'' ''id-b@x.com'' ''owner'' True (JBool False))] \<and>
   fst (permissions_list mem_drive ''F1''
          (drv (snd (transferFileOwnership mem_drive ''F1'' ''b@x.com'' Map.empty world0)))) =
     Inr [\<lparr>perm_id = ''id-a@x.com'', role = ''owner'', perm_type = ''user'',
            emailAddress = Some ''a@x.com''\<rparr>,
          \<lparr>perm_id = ''id-b@x.com'', role = ''owner'', perm_type = ''user'',
            emailAddress = Some ''b@x.com''\<rparr>] \<and>
   (\<exists>f s1 perms s2.
      files_get mem_drive ''F1'' (drv world0) = (Inr f, s1) \<and>
      permissions_list mem_drive ''F1'' s1 = (Inr perms, s2) \<and>
      find (\<lambda>perm. emailAddress perm = Some ''b@x.com'') perms = None)"
proof -
  let ?run = "transferFileOwnership mem_drive ''F1'' ''b@x.com'' Map.empty world0"
  let ?r = "\<lparr>success = True, message = Some ''Ownership transferred successfully'', error = None,
          fileId = ''F1'', fileName = Some ''report.txt'', newOwner = Some ''b@x.com''\<rparr>"
  have first: "fst ?run = Inr ?r" by (simp add: run_defs)
  then have h: "?run = (Inr ?r, snd ?run)" by (simp add: prod_eq_iff)
  have tr: "trace (snd ?run) =
     [Api (GetFile ''F1''), Api (ListPermissions ''F1''),
      Api (CreatePermission ''F1'' ''writer'' ''user'' ''b@x.com''),
      Api (ListPermissions ''F1''),
      Api (UpdatePermission ''F1'' ''id-b@x.com'' ''owner'' True (JBool False))]"
    by (simp add: run_defs)
  have after: "fst (permissions_list mem_drive ''F1'' (drv (snd ?run))) =
     Inr [\<lparr>perm_id = ''id-a@x.com'', role = ''owner'', perm_type = ''user'',
            emailAddress = Some ''a@x.com''\<rparr>,
          \<lparr>perm_id = ''id-b@x.com'', role = ''owner'', perm_type = ''user'',
            emailAddress = Some ''b@x.com''\<rparr>]"
    by (simp add: run_defs)
  have g: "files_get mem_drive ''F1'' (drv world0) = (Inr file1, mem0)"
    and l: "permissions_list mem_drive ''F1'' mem0 = (Inr [owner_a], mem0)"
    by (simp_all add: mem_drive_def world0_def mem0_def)
  from transfer_success_cases[OF h] obtain f s1 perms s2 where
    c: "files_get mem_drive ''F1'' (drv world0) = (Inr f, s1)"
       "permissions_list mem_drive ''F1'' s1 = (Inr perms, s2)"
    by blast
  with g l have "perms = [owner_a]" by simp
  then have "find (\<lambda>perm. emailAddress perm = Some ''b@x.com'') perms = None"
    by (simp add: owner_a_def)
  with c have "\<exists>f s1 perms s2.
      files_get mem_drive ''F1'' (drv world0) = (Inr f, s1) \<and>
      permissions_list mem_drive ''F1'' s1 = (Inr perms, s2) \<and>
      find (\<lambda>perm. emailAddress perm = Some ''b@x.com'') perms = None" by blast
  with first tr after show ?thesis by blast
qed

section \<open>Validation\<close>

lemma validate_cases:
  assumes "files_get D fid (drv w) = (x, s')"
  shows "validateTransferPreconditions D fid email w =
    (Inr (case x of
            Inl m \<Rightarrow> \<lparr>valid = False, currentOwner = None, validFileName = None,
                       validError = Some (''Failed to get file details: '' @ m)\<rparr>
          | Inr f \<Rightarrow>
              (case owners f of
                 Some (p # ps) \<Rightarrow>
                   if isValidEmail email
                   then \<lparr>valid = True, currentOwner = Some (owner_emailAddress p),
                         validFileName = Some (name f), validError = None\<rparr>
                   else \<lparr>valid = False, currentOwner = None, validFileName = None,
                         validError = Some ''Invalid new owner email address''\<rparr>
               | _ \<Rightarrow> \<lparr>valid = False, currentOwner = None, validFileName = None,
                        validError = Some ''Could not determine current file owner''\<rparr>)),
     \<lparr>drv = s', trace = trace w @ [Api (GetFile fid)]\<rparr>)"
  using assms
  by (auto simp: validateTransferPreconditions_def getFileDetails_def rethrow_def await_def
      call_def throw_def return_def split: sum.splits option.splits list.splits)

text \<open>
  C9. The validator never throws: it always returns a verdict, after exactly one request,
  \<^verbatim>\<open>files.get\<close>, so nothing is written. A positive verdict carries the email address of
  the first owner and the file name, and is given exactly when the file was fetched, its
  owner list has a first element and the target email passes the syntactic check. A
  negative verdict carries a message; the message names the missing owner when the owner
  list is absent or empty, and the invalid address when the check fails on a file with an
  owner.
\<close>

theorem validate_never_throws:
  "\<exists>v. validateTransferPreconditions D fid email w =
          (Inr v, \<lparr>drv = snd (files_get D fid (drv w)), trace = trace w @ [Api (GetFile fid)]\<rparr>) \<and>
     (valid v \<longleftrightarrow>
        (\<exists>f p ps. fst (files_get D fid (drv w)) = Inr f \<and> owners f = Some (p # ps) \<and>
                   isValidEmail email)) \<and>
     (valid v \<longrightarrow>
        (\<exists>f p ps. fst (files_get D fid (drv w)) = Inr f \<and> owners f = Some (p # ps) \<and>
                   currentOwner v = Some (owner_emailAddress p) \<and>
                   validFileName v = Some (name f) \<and> validError v = None)) \<and>
     (\<not> valid v \<longrightarrow> (\<exists>msg. validError v = Some msg)) \<and>
     ((\<exists>f. fst (files_get D fid (drv w)) = Inr f \<and> (owners f = None \<or> owners f = Some [])) \<longrightarrow>
        \<not> valid v \<and> validError v = Some ''Could not determine current file owner'') \<and>
     ((\<exists>f p ps. fst (files_get D fid (drv w)) = Inr f \<and> owners f = Some (p # ps) \<and>
                 \<not> isValidEmail email) \<longrightarrow>
        \<not> valid v \<and> validError v = Some ''Invalid new owner email address'')"
proof -
  obtain x s' where g: "files_get D fid (drv w) = (x, s')" by force
  show ?thesis
    unfolding validate_cases[OF g] using g
    by (auto split: sum.splits option.splits list.splits)
qed

theorem validate_never_throws_witness:
  "fst (validateTransferPreconditions mem_drive ''F1'' ''b@x.com'' world0) =
     Inr \<lparr>valid = True, currentOwner = Some ''a@x.com'', validFileName = Some ''report.txt'',
          validError = None\<rparr> \<and>
   trace (snd (validateTransferPreconditions mem_drive ''F1'' ''b@x.com'' world0)) =
     [Api (GetFile ''F1'')] \<and>
   isValidEmail ''b@x.com'' \<and> \<not> isValidEmail ''not-an-email'' \<and>
   fst (validateTransferPreconditions mem_drive ''F1'' ''not-an-email'' world0) =
     Inr \<lparr>valid = False, currentOwner = None, validFileName = None,
          validError = Some ''Invalid new owner email address''\<rparr>"
proof -
  have v: "isValidEmail ''b@x.com''" "\<not> isValidEmail ''not-an-email''"
    by (simp_all add: isValidEmail_def nonSpaceNonAt_def js_space_def)
  have g: "fst (files_get mem_drive ''F1'' (drv world0)) = Inr file1"
    "snd (files_get mem_drive ''F1'' (drv world0)) = mem0"
    by (simp_all add: mem_drive_def world0_def mem0_def)
  have o: "owners file1 = Some [\<lparr>owner_emailAddress = ''a@x.com'', owner_displayName = ''A''\<rparr>]"
    "name file1 = ''report.txt''"
    by (simp_all add: file1_def)
  have tw: "trace world0 = []" by (simp add: world0_def)
  from validate_never_throws[of mem_drive "''F1''" "''b@x.com''" world0]
  obtain v1 where v1: "validateTransferPreconditions mem_drive ''F1'' ''b@x.com'' world0 =
       (Inr v1, \<lparr>drv = mem0, trace = [Api (GetFile ''F1'')]\<rparr>)"
    "valid v1" "currentOwner v1 = Some ''a@x.com''" "validFileName v1 = Some ''report.txt''"
    "validError v1 = None"
    using v g o tw by auto
  from validate_never_throws[of mem_drive "''F1''" "''not-an-email''" world0]
  obtain v2 where v2: "validateTransferPreconditions mem_drive ''F1'' ''not-an-email'' world0 =
       (Inr v2, \<lparr>drv = mem0, trace = [Api (GetFile ''F1'')]\<rparr>)"
    "\<not> valid v2" "validError v2 = Some ''Invalid new owner email address''"
    using v g o tw by auto
  have e2: "fst (validateTransferPreconditions mem_drive ''F1'' ''not-an-email'' world0) =
     Inr \<lparr>valid = False, currentOwner = None, validFileName = None,
          validError = Some ''Invalid new owner email address''\<rparr>"
    by (simp add: run_defs v)
  from v1 v2 v e2 show ?thesis by (cases v1) simp
qed




end
